theory Spec2Isabelle
  imports Main "HOL-Library.Multiset"
begin

section \<open>Strings as the search handler uses them\<close>

text \<open>
  Strings are lists of 8-bit characters, read as the code units 0 to 255 (Latin-1). The
  helpers below give the JavaScript string operations used by \<^verbatim>\<open>supabase/functions/global-search/index.ts\<close> their meaning on
  that alphabet: \<^verbatim>\<open>toLowerCase\<close>, \<^verbatim>\<open>trim\<close>, \<^verbatim>\<open>includes\<close>,
  \<^verbatim>\<open>split(/\s+/)\<close>, \<^verbatim>\<open>join\<close> and the character classes of the regular expressions.
\<close>

definition code :: "char \<Rightarrow> nat" where
  "code c = of_char c"

definition is_space :: "char \<Rightarrow> bool" where
  \<comment> \<open>\<^verbatim>\<open>\s\<close>: tab, line feed, vertical tab, form feed, carriage return, space, no-break space\<close>
  "is_space c = (code c \<in> {9, 10, 11, 12, 13, 32, 160})"

definition is_digit :: "char \<Rightarrow> bool" where
  "is_digit c = (48 \<le> code c \<and> code c \<le> 57)"

definition is_upper :: "char \<Rightarrow> bool" where
  "is_upper c = (65 \<le> code c \<and> code c \<le> 90)"

definition is_lower :: "char \<Rightarrow> bool" where
  "is_lower c = (97 \<le> code c \<and> code c \<le> 122)"

definition is_upper_latin1 :: "char \<Rightarrow> bool" where
  \<comment> \<open>the capitals above the ASCII range: 192 to 214 and 216 to 222 (215 is the multiplication sign)\<close>
  "is_upper_latin1 c = ((192 \<le> code c \<and> code c \<le> 214) \<or> (216 \<le> code c \<and> code c \<le> 222))"

definition lower_char :: "char \<Rightarrow> char" where
  \<comment> \<open>every capital of the alphabet has its small letter 32 places further on\<close>
  "lower_char c = (if is_upper c \<or> is_upper_latin1 c then char_of (code c + 32) else c)"

definition toLowerCase :: "string \<Rightarrow> string" where
  "toLowerCase s = map lower_char s"

definition trim :: "string \<Rightarrow> string" where
  "trim s = rev (dropWhile is_space (rev (dropWhile is_space s)))"

fun startsWith :: "string \<Rightarrow> string \<Rightarrow> bool" where
  "startsWith s [] = True"
| "startsWith [] (n # ns) = False"
| "startsWith (c # cs) (n # ns) = (c = n \<and> startsWith cs ns)"

fun includes_str :: "string \<Rightarrow> string \<Rightarrow> bool" where
  "includes_str [] needle = (needle = [])"
| "includes_str (c # cs) needle = (startsWith (c # cs) needle \<or> includes_str cs needle)"

fun join :: "string \<Rightarrow> string list \<Rightarrow> string" where
  "join sep [] = []"
| "join sep [w] = w"
| "join sep (w # v # ws) = w @ sep @ join sep (v # ws)"

fun split_spaces :: "string \<Rightarrow> bool \<Rightarrow> string \<Rightarrow> string list" where
  \<comment> \<open>\<^verbatim>\<open>split(/\s+/)\<close>: the piece read so far, whether a separator run is being skipped, the rest\<close>
  "split_spaces cur in_sep [] = [cur]"
| "split_spaces cur in_sep (c # cs) =
     (if is_space c
      then (if in_sep then split_spaces [] True cs else cur # split_spaces [] True cs)
      else split_spaces (cur @ [c]) False cs)"

section \<open>Regular expressions of the intent classifier\<close>

datatype rx =
    Void
  | Eps
  | Cls "char \<Rightarrow> bool"
  | Seq rx rx
  | Alt rx rx
  | Star rx

fun nullable :: "rx \<Rightarrow> bool" where
  "nullable Void = False"
| "nullable Eps = True"
| "nullable (Cls p) = False"
| "nullable (Seq r s) = (nullable r \<and> nullable s)"
| "nullable (Alt r s) = (nullable r \<or> nullable s)"
| "nullable (Star r) = True"

fun deriv :: "char \<Rightarrow> rx \<Rightarrow> rx" where
  "deriv c Void = Void"
| "deriv c Eps = Void"
| "deriv c (Cls p) = (if p c then Eps else Void)"
| "deriv c (Seq r s) =
     (if nullable r then Alt (Seq (deriv c r) s) (deriv c s) else Seq (deriv c r) s)"
| "deriv c (Alt r s) = Alt (deriv c r) (deriv c s)"
| "deriv c (Star r) = Seq (deriv c r) (Star r)"

definition rx_test :: "rx \<Rightarrow> string \<Rightarrow> bool" where
  \<comment> \<open>\<^verbatim>\<open>/^r$/.test(s)\<close>\<close>
  "rx_test r s = nullable (foldl (\<lambda>r c. deriv c r) r s)"

definition Plus :: "rx \<Rightarrow> rx" where
  "Plus r = Seq r (Star r)"

definition Opt :: "rx \<Rightarrow> rx" where
  "Opt r = Alt Eps r"

primrec Rep :: "nat \<Rightarrow> rx \<Rightarrow> rx" where
  "Rep 0 r = Eps"
| "Rep (Suc n) r = Seq r (Rep n r)"

definition AtLeast :: "nat \<Rightarrow> rx \<Rightarrow> rx" where
  \<comment> \<open>\<^verbatim>\<open>r{n,}\<close>\<close>
  "AtLeast n r = Seq (Rep n r) (Star r)"

definition Chr :: "char \<Rightarrow> rx" where
  "Chr c = Cls (\<lambda>x. x = c)"

definition Chr_i :: "char \<Rightarrow> rx" where
  \<comment> \<open>a literal letter under the \<^verbatim>\<open>i\<close> flag\<close>
  "Chr_i c = Cls (\<lambda>x. lower_char x = c)"

definition Lit_i :: "string \<Rightarrow> rx" where
  "Lit_i s = foldr (\<lambda>c r. Seq (Chr_i c) r) s Eps"

definition AnyTail :: rx where
  \<comment> \<open>a pattern with no \<^verbatim>\<open>$\<close> accepts any rest\<close>
  "AnyTail = Star (Cls (\<lambda>x. True))"

definition not_space_at :: "char \<Rightarrow> bool" where
  \<comment> \<open>\<^verbatim>\<open>[^\s@]\<close>\<close>
  "not_space_at c = (\<not> is_space c \<and> c \<noteq> CHR ''@'')"

definition phone_char :: "char \<Rightarrow> bool" where
  \<comment> \<open>\<^verbatim>\<open>[\d\s()-]\<close>\<close>
  "phone_char c = (is_digit c \<or> is_space c \<or> c = CHR ''(''  \<or> c = CHR '')'' \<or> c = CHR ''-'')"

definition hex_char :: "char \<Rightarrow> bool" where
  \<comment> \<open>\<^verbatim>\<open>[0-9a-f]\<close> under the \<^verbatim>\<open>i\<close> flag\<close>
  "hex_char c = (is_digit c \<or> (97 \<le> code (lower_char c) \<and> code (lower_char c) \<le> 102))"

definition word_dot_dash :: "char \<Rightarrow> bool" where
  \<comment> \<open>\<^verbatim>\<open>[\w.-]\<close>\<close>
  "word_dot_dash c =
     (is_digit c \<or> is_upper c \<or> is_lower c \<or> c = CHR ''_'' \<or> c = CHR ''.'' \<or> c = CHR ''-'')"

definition letter_i :: "char \<Rightarrow> bool" where
  \<comment> \<open>\<^verbatim>\<open>[a-z]\<close> under the \<^verbatim>\<open>i\<close> flag\<close>
  "letter_i c = (is_upper c \<or> is_lower c)"

definition emailRegex :: rx where
  "emailRegex =
     Seq (Plus (Cls not_space_at))
       (Seq (Chr CHR ''@'')
         (Seq (Plus (Cls not_space_at))
           (Seq (Chr CHR ''.'') (Plus (Cls not_space_at)))))"

definition phoneRegex :: rx where
  "phoneRegex = Seq (Opt (Chr CHR ''+'')) (AtLeast 7 (Cls phone_char))"

definition uuidRegex :: rx where
  "uuidRegex =
     Seq (Rep 8 (Cls hex_char))
       (Seq (Chr CHR ''-'')
         (Seq (Rep 4 (Cls hex_char))
           (Seq (Chr CHR ''-'')
             (Seq (Rep 4 (Cls hex_char))
               (Seq (Chr CHR ''-'')
                 (Seq (Rep 4 (Cls hex_char))
                   (Seq (Chr CHR ''-'') (Rep 12 (Cls hex_char)))))))))"

definition urlRegex :: rx where
  "urlRegex =
     Seq (Opt (Seq (Lit_i ''http'') (Seq (Opt (Chr_i CHR ''s'')) (Lit_i ''://''))))
       (Seq (Plus (Cls word_dot_dash))
         (Seq (Chr CHR ''.'')
           (Seq (AtLeast 2 (Cls letter_i)) AnyTail)))"

definition detectQueryIntent :: "string \<Rightarrow> string list" where
  "detectQueryIntent query =
     (let intents =
            (if rx_test emailRegex (trim query) then [''email''] else [])
          @ (if rx_test phoneRegex (filter (\<lambda>c. \<not> is_space c) query) then [''phone''] else [])
          @ (if rx_test uuidRegex (trim query) then [''id''] else [])
          @ (if rx_test urlRegex (trim query) then [''url''] else [])
      in if length intents = 0 then [''text''] else intents)"

section \<open>Query sanitizer and prefix-expression builder\<close>

definition unsafe_char :: "char \<Rightarrow> bool" where
  \<comment> \<open>the class \<^verbatim>\<open>[&|!():<>*\\"']\<close>\<close>
  "unsafe_char c =
     (c \<in> {CHR ''&'', CHR ''|'', CHR ''!'', CHR ''('', CHR '')'', CHR '':'', CHR ''<'',
            CHR ''>'', CHR ''*'', CHR 0x5C, CHR 0x22, CHR 0x27})"

definition escapeSearchQuery :: "string \<Rightarrow> string" where
  "escapeSearchQuery query = trim (map (\<lambda>c. if unsafe_char c then CHR '' '' else c) query)"

definition createFuzzyPattern :: "string \<Rightarrow> string" where
  "createFuzzyPattern query =
     (let escaped = escapeSearchQuery query;
          words = filter (\<lambda>w. length w > 0) (split_spaces [] False escaped)
      in join '' & '' (map (\<lambda>w. w @ '':*'') words))"

section \<open>Data model of the search handler\<close>

datatype json = JNull | JStr string | JNum int | JBool bool

record SearchResult =
  result_id :: string
  result_type :: string
  title :: string
  subtitle :: string
  redirectUrl :: string
  priorityScore :: int
  metadata :: "(string \<times> json) list option"

record SearchRequest =
  req_query :: "string option"
  req_filters :: "string list option"
  req_limit :: "int option"

text \<open>
  A promise that has settled: it resolved with a value or it rejected, and an
  \<^verbatim>\<open>await\<close> on a rejected promise throws. The store client answers a query with a
  pair of \<^verbatim>\<open>data\<close> and \<^verbatim>\<open>error\<close>.
\<close>

datatype 'a awaited = Resolved 'a | Rejected string

record 'a reply =
  data :: "'a list option"
  error :: "string option"

record lead_row =
  lead_id :: string
  lead_name :: string
  lead_email :: "string option"
  lead_mobile :: string
  lead_status :: string
  lead_source :: "string option"

record user_row =
  user_id :: string
  user_name :: string
  user_email :: string
  user_phone :: "string option"
  user_role :: string

record agent_row =
  agent_id :: string
  agent_name :: string
  agent_voice :: "string option"
  agent_tone :: "string option"
  agent_is_active :: bool

record call_row =
  call_id :: string
  call_status :: string
  call_duration :: "int option"
  call_summary :: "string option"
  call_created_at :: string
  call_leads_name :: "string option"

datatype cond =
    Eq string "string option"
  | Ilike string string
  | Or string

record store_query =
  from_table :: string
  select_cols :: "string list"
  conds :: "cond list"
  row_limit :: int

datatype store_op =
    Select store_query
  | Upsert string string int

record auth_reply =
  user :: "string option"
  userError :: "string option"

record profile =
  profile_id :: string
  company_id :: "string option"
  role :: string

section \<open>The recent-searches table and its trigger\<close>

text \<open>
  The table \<^verbatim>\<open>recent_searches\<close> with its \<^verbatim>\<open>UNIQUE(user_id, query)\<close> constraint, the
  function \<^verbatim>\<open>limit_recent_searches\<close> and the trigger that runs it after each inserted
  row. Row ids are drawn from a counter; timestamps are integers. \<^verbatim>\<open>ORDER BY created_at
  DESC\<close> is a stable descending sort of the rows in table order.
\<close>

record recent_row =
  row_id :: nat
  row_user_id :: string
  row_query :: string
  created_at :: int

record recent_table =
  table_rows :: "recent_row list"
  next_id :: nat

definition limit_recent_searches :: "recent_row \<Rightarrow> recent_row list \<Rightarrow> recent_row list" where
  "limit_recent_searches NEW rows =
     (let keep = map row_id
                   (take 10 (sort_key (\<lambda>r. - created_at r)
                               (filter (\<lambda>r. row_user_id r = row_user_id NEW) rows)))
      in filter (\<lambda>r. \<not> (row_user_id r = row_user_id NEW \<and> row_id r \<notin> set keep)) rows)"

definition upsert_recent :: "string \<Rightarrow> string \<Rightarrow> int \<Rightarrow> recent_table \<Rightarrow> recent_table" where
  \<comment> \<open>\<^verbatim>\<open>upsert(..., { onConflict: 'user_id,query' })\<close>; the trigger fires for an inserted row only\<close>
  "upsert_recent uid q t tb =
     (if \<exists>r \<in> set (table_rows tb). row_user_id r = uid \<and> row_query r = q
      then tb\<lparr>table_rows :=
                map (\<lambda>r. if row_user_id r = uid \<and> row_query r = q then r\<lparr>created_at := t\<rparr> else r)
                  (table_rows tb)\<rparr>
      else
        let NEW = \<lparr>row_id = next_id tb, row_user_id = uid, row_query = q, created_at = t\<rparr>
        in \<lparr>table_rows = limit_recent_searches NEW (table_rows tb @ [NEW]),
            next_id = Suc (next_id tb)\<rparr>)"

text \<open>
  For the statements about the table: the rows of one caller, the constraints the schema
  enforces (primary key, ids below the counter, \<^verbatim>\<open>UNIQUE(user_id, query)\<close>), a run of
  executed searches by one caller given as query texts with their timestamps, and the rows
  such a run inserts.
\<close>

definition rows_of_user :: "string \<Rightarrow> recent_table \<Rightarrow> recent_row list" where
  "rows_of_user uid tb = filter (\<lambda>r. row_user_id r = uid) (table_rows tb)"

definition table_ok :: "recent_table \<Rightarrow> bool" where
  "table_ok tb =
     (distinct (map row_id (table_rows tb)) \<and>
      list_all (\<lambda>r. row_id r < next_id tb) (table_rows tb) \<and>
      distinct (map (\<lambda>r. (row_user_id r, row_query r)) (table_rows tb)))"

definition run_searches :: "string \<Rightarrow> (string \<times> int) list \<Rightarrow> recent_table \<Rightarrow> recent_table" where
  "run_searches uid qts tb = foldl (\<lambda>tb (q, t). upsert_recent uid q t tb) tb qts"

definition eleven_searches :: "(string \<times> int) list" where
  "eleven_searches =
     [(''alpha'', 1), (''bravo'', 2), (''charlie'', 3), (''delta'', 4), (''echo'', 5),
      (''foxtrot'', 6), (''golf'', 7), (''hotel'', 8), (''india'', 9), (''juliet'', 10),
      (''kilo'', 11)]"

fun history_rows :: "nat \<Rightarrow> string \<Rightarrow> (string \<times> int) list \<Rightarrow> recent_row list" where
  "history_rows n uid [] = []"
| "history_rows n uid ((q, t) # qts) =
     \<lparr>row_id = n, row_user_id = uid, row_query = q, created_at = t\<rparr> # history_rows (Suc n) uid qts"

section \<open>The world the handler runs in\<close>

record world =
  auth_getUser :: "string \<Rightarrow> auth_reply awaited"
  users_maybeSingle :: "string \<Rightarrow> profile option awaited"
  leads_select :: "store_query \<Rightarrow> lead_row reply awaited"
  users_select :: "store_query \<Rightarrow> user_row reply awaited"
  agents_select :: "store_query \<Rightarrow> agent_row reply awaited"
  calls_select :: "store_query \<Rightarrow> call_row reply awaited"
  recent_upsert :: "string \<Rightarrow> string \<Rightarrow> string option awaited"
  now :: int

record http_request =
  http_method :: string
  authorization :: "string option"
  json_body :: "SearchRequest awaited"

record search_body =
  results :: "SearchResult list"
  categories :: "(string \<times> SearchResult list) list"
  totalCount :: "nat option"
  resp_query :: "string option"
  resp_intents :: "string list option"

datatype body =
    NoBody
  | ErrorBody string "string option"
  | SearchBody search_body

record response =
  status :: nat
  body :: body

section \<open>Per-source search adapters\<close>

definition or_str :: "string \<Rightarrow> string \<Rightarrow> string" where
  \<comment> \<open>\<^verbatim>\<open>a || b\<close> on strings: the empty string is falsy\<close>
  "or_str a b = (if a = [] then b else a)"

definition or_opt :: "string option \<Rightarrow> string \<Rightarrow> string" where
  \<comment> \<open>\<^verbatim>\<open>a || b\<close> where \<^verbatim>\<open>a\<close> may be null\<close>
  "or_opt a b = (case a of None \<Rightarrow> b | Some s \<Rightarrow> or_str s b)"

definition template :: "string option \<Rightarrow> string" where
  \<comment> \<open>a nullable value inside a template literal\<close>
  "template a = (case a of None \<Rightarrow> ''null'' | Some s \<Rightarrow> s)"

definition jstr :: "string option \<Rightarrow> json" where
  "jstr a = (case a of None \<Rightarrow> JNull | Some s \<Rightarrow> JStr s)"

definition jnum :: "int option \<Rightarrow> json" where
  "jnum a = (case a of None \<Rightarrow> JNull | Some n \<Rightarrow> JNum n)"

definition rows_of :: "'a reply \<Rightarrow> 'a list" where
  \<comment> \<open>\<^verbatim>\<open>data || []\<close>\<close>
  "rows_of r = (case data r of None \<Rightarrow> [] | Some d \<Rightarrow> d)"

definition leadsQuery :: "int \<Rightarrow> string list \<Rightarrow> string \<Rightarrow> string option \<Rightarrow> store_query" where
  \<comment> \<open>the \<^verbatim>\<open>queryBuilder\<close> of \<^verbatim>\<open>searchLeads\<close>\<close>
  "leadsQuery limit intents searchPattern companyId =
     (let queryBuilder =
            \<lparr>from_table = ''leads'',
             select_cols = [''id'', ''name'', ''email'', ''mobile'', ''status'', ''source''],
             conds = [Eq ''company_id'' companyId],
             row_limit = limit\<rparr>
      in if ''email'' \<in> set intents
         then queryBuilder\<lparr>conds := conds queryBuilder @ [Ilike ''email'' searchPattern]\<rparr>
         else if ''phone'' \<in> set intents
         then queryBuilder\<lparr>conds := conds queryBuilder @ [Ilike ''mobile'' searchPattern]\<rparr>
         else queryBuilder\<lparr>conds := conds queryBuilder @
                [Or (''name.ilike.'' @ searchPattern @ '',email.ilike.'' @ searchPattern
                     @ '',mobile.ilike.'' @ searchPattern)]\<rparr>)"

definition usersQuery :: "int \<Rightarrow> string \<Rightarrow> string option \<Rightarrow> store_query" where
  \<comment> \<open>the query that \<^verbatim>\<open>searchUsers\<close> awaits\<close>
  "usersQuery limit searchPattern companyId =
     \<lparr>from_table = ''users'',
      select_cols = [''id'', ''name'', ''email'', ''phone'', ''role''],
      conds = [Eq ''company_id'' companyId,
               Or (''name.ilike.'' @ searchPattern @ '',email.ilike.'' @ searchPattern)],
      row_limit = limit\<rparr>"

definition agentsQuery :: "int \<Rightarrow> string \<Rightarrow> string option \<Rightarrow> store_query" where
  \<comment> \<open>the query that \<^verbatim>\<open>searchAgents\<close> awaits\<close>
  "agentsQuery limit searchPattern companyId =
     \<lparr>from_table = ''agents'',
      select_cols = [''id'', ''name'', ''voice'', ''tone'', ''is_active''],
      conds = [Eq ''company_id'' companyId, Ilike ''name'' searchPattern],
      row_limit = limit\<rparr>"

definition callsQuery :: "int \<Rightarrow> string \<Rightarrow> string option \<Rightarrow> store_query" where
  \<comment> \<open>the query that \<^verbatim>\<open>searchCalls\<close> awaits\<close>
  "callsQuery limit searchPattern companyId =
     \<lparr>from_table = ''calls'',
      select_cols = [''id'', ''status'', ''duration'', ''summary'', ''created_at'',
                     ''leads!inner(id, name)''],
      conds = [Eq ''company_id'' companyId, Or (''summary.ilike.'' @ searchPattern)],
      row_limit = limit\<rparr>"

definition searchLeads ::
  "world \<Rightarrow> string list \<Rightarrow> int \<Rightarrow> string list \<Rightarrow> string \<Rightarrow> string option
     \<Rightarrow> store_op list \<times> SearchResult list awaited" where
  "searchLeads w filters limit intents searchPattern companyId =
     (if length filters > 0 \<and> ''leads'' \<notin> set filters then ([], Resolved [])
      else
        let queryBuilder = leadsQuery limit intents searchPattern companyId
        in ([Select queryBuilder],
            case leads_select w queryBuilder of
              Rejected e \<Rightarrow> Rejected e
            | Resolved r \<Rightarrow>
                if error r \<noteq> None then Resolved []
                else Resolved
                  (map (\<lambda>(idx, lead).
                        \<lparr>result_id = lead_id lead,
                         result_type = ''lead'',
                         title = or_str (lead_name lead) ''Unknown Lead'',
                         subtitle = or_opt (lead_email lead) (or_str (lead_mobile lead) (lead_status lead)),
                         redirectUrl = ''/leads/'' @ lead_id lead,
                         priorityScore = 100 - int idx,
                         metadata = Some [(''status'', JStr (lead_status lead)),
                                          (''source'', jstr (lead_source lead))]\<rparr>)
                     (enumerate 0 (rows_of r)))))"

definition searchUsers ::
  "world \<Rightarrow> string list \<Rightarrow> int \<Rightarrow> bool \<Rightarrow> string \<Rightarrow> string option
     \<Rightarrow> store_op list \<times> SearchResult list awaited" where
  "searchUsers w filters limit isAdmin searchPattern companyId =
     (if length filters > 0 \<and> ''users'' \<notin> set filters then ([], Resolved [])
      else if \<not> isAdmin then ([], Resolved [])
      else
        let queryBuilder = usersQuery limit searchPattern companyId
        in ([Select queryBuilder],
            case users_select w queryBuilder of
              Rejected e \<Rightarrow> Rejected e
            | Resolved r \<Rightarrow>
                if error r \<noteq> None then Resolved []
                else Resolved
                  (map (\<lambda>(idx, u).
                        \<lparr>result_id = user_id u,
                         result_type = ''user'',
                         title = or_str (user_name u) ''Unknown User'',
                         subtitle = or_str (user_email u) (user_role u),
                         redirectUrl = ''/settings'',
                         priorityScore = 80 - int idx,
                         metadata = Some [(''role'', JStr (user_role u))]\<rparr>)
                     (enumerate 0 (rows_of r)))))"

definition searchAgents ::
  "world \<Rightarrow> string list \<Rightarrow> int \<Rightarrow> string \<Rightarrow> string option
     \<Rightarrow> store_op list \<times> SearchResult list awaited" where
  "searchAgents w filters limit searchPattern companyId =
     (if length filters > 0 \<and> ''agents'' \<notin> set filters then ([], Resolved [])
      else
        let queryBuilder = agentsQuery limit searchPattern companyId
        in ([Select queryBuilder],
            case agents_select w queryBuilder of
              Rejected e \<Rightarrow> Rejected e
            | Resolved r \<Rightarrow>
                if error r \<noteq> None then Resolved []
                else Resolved
                  (map (\<lambda>(idx, agent).
                        \<lparr>result_id = agent_id agent,
                         result_type = ''agent'',
                         title = agent_name agent,
                         subtitle = template (agent_voice agent) @ '' voice - ''
                                    @ (if agent_is_active agent then ''Active'' else ''Inactive''),
                         redirectUrl = ''/agents'',
                         priorityScore = 70 - int idx,
                         metadata = Some [(''voice'', jstr (agent_voice agent)),
                                          (''isActive'', JBool (agent_is_active agent))]\<rparr>)
                     (enumerate 0 (rows_of r)))))"

definition searchCalls ::
  "world \<Rightarrow> string list \<Rightarrow> int \<Rightarrow> string \<Rightarrow> string option
     \<Rightarrow> store_op list \<times> SearchResult list awaited" where
  "searchCalls w filters limit searchPattern companyId =
     (if length filters > 0 \<and> ''calls'' \<notin> set filters then ([], Resolved [])
      else
        let queryBuilder = callsQuery limit searchPattern companyId
        in ([Select queryBuilder],
            case calls_select w queryBuilder of
              Rejected e \<Rightarrow> Rejected e
            | Resolved r \<Rightarrow>
                if error r \<noteq> None then Resolved []
                else Resolved
                  (map (\<lambda>(idx, call).
                        \<lparr>result_id = call_id call,
                         result_type = ''call'',
                         title = ''Call with '' @ or_opt (call_leads_name call) ''Unknown'',
                         subtitle = or_opt (map_option (take 50) (call_summary call)) (call_status call),
                         redirectUrl = ''/call-analytics'',
                         priorityScore = 60 - int idx,
                         metadata = Some [(''status'', JStr (call_status call)),
                                          (''duration'', jnum (call_duration call))]\<rparr>)
                     (enumerate 0 (rows_of r)))))"

definition settingsItems :: "(string \<times> string \<times> string \<times> string) list" where
  \<comment> \<open>id, title, subtitle, url\<close>
  "settingsItems =
     [(''profile'', ''Profile Settings'', ''Manage your profile'', ''/settings''),
      (''notifications'', ''Notification Settings'', ''Configure alerts'', ''/settings''),
      (''integrations'', ''Integrations'', ''Connect external services'', ''/integrations''),
      (''api-keys'', ''API Keys'', ''Manage API credentials'', ''/settings''),
      (''company'', ''Company Settings'', ''Organization preferences'', ''/settings'')]"

definition searchSettings :: "string list \<Rightarrow> string \<Rightarrow> SearchResult list" where
  "searchSettings filters query =
     (if length filters > 0 \<and> ''settings'' \<notin> set filters then []
      else
        let lowerQuery = toLowerCase query
        in map (\<lambda>(idx, (item_id, item_title, item_subtitle, item_url)).
                 \<lparr>result_id = item_id,
                  result_type = ''setting'',
                  title = item_title,
                  subtitle = item_subtitle,
                  redirectUrl = item_url,
                  priorityScore = 50 - int idx,
                  metadata = None\<rparr>)
             (enumerate 0
               (filter (\<lambda>(item_id, item_title, item_subtitle, item_url).
                          includes_str (toLowerCase item_title) lowerQuery \<or>
                          includes_str (toLowerCase item_subtitle) lowerQuery)
                  settingsItems)))"

definition navItems :: "(string \<times> string \<times> string \<times> string \<times> string list) list" where
  \<comment> \<open>id, title, subtitle, url, keywords\<close>
  "navItems =
     [(''dashboard'', ''Dashboard'', ''Overview & stats'', ''/dashboard'',
         [''home'', ''overview'', ''stats'', ''metrics'']),
      (''leads'', ''Leads'', ''Manage leads'', ''/leads'',
         [''contacts'', ''prospects'', ''customers'']),
      (''analytics'', ''Analytics'', ''Charts & insights'', ''/analytics'',
         [''reports'', ''data'', ''charts'', ''graphs'']),
      (''call-analytics'', ''Call Analytics'', ''Call metrics'', ''/call-analytics'',
         [''calls'', ''phone'', ''conversations'']),
      (''agents'', ''Agents'', ''AI voice agents'', ''/agents'',
         [''ai'', ''voice'', ''bots'', ''assistants'']),
      (''integrations'', ''Integrations'', ''Connect apps'', ''/integrations'',
         [''connect'', ''apps'', ''services'', ''api'']),
      (''settings'', ''Settings'', ''Preferences'', ''/settings'',
         [''config'', ''preferences'', ''account''])]"

definition searchNavigation :: "string \<Rightarrow> SearchResult list" where
  "searchNavigation query =
     (let lowerQuery = toLowerCase query
      in map (\<lambda>(idx, (item_id, item_title, item_subtitle, item_url, item_keywords)).
               \<lparr>result_id = item_id,
                result_type = ''navigation'',
                title = item_title,
                subtitle = item_subtitle,
                redirectUrl = item_url,
                priorityScore = 90 - int idx,
                metadata = None\<rparr>)
           (enumerate 0
             (filter (\<lambda>(item_id, item_title, item_subtitle, item_url, item_keywords).
                        includes_str (toLowerCase item_title) lowerQuery \<or>
                        includes_str (toLowerCase item_subtitle) lowerQuery \<or>
                        (\<exists>k \<in> set item_keywords. includes_str k lowerQuery))
                navItems)))"

section \<open>Aggregator and request handler\<close>

definition sortResults :: "SearchResult list \<Rightarrow> SearchResult list" where
  \<comment> \<open>\<^verbatim>\<open>results.sort((a, b) => b.priorityScore - a.priorityScore)\<close>, a stable sort\<close>
  "sortResults rs = sort_key (\<lambda>r. - priorityScore r) rs"

fun push_category ::
  "(string \<times> SearchResult list) list \<Rightarrow> SearchResult \<Rightarrow> (string \<times> SearchResult list) list" where
  "push_category [] r = [(result_type r, [r])]"
| "push_category ((k, v) # cs) r =
     (if k = result_type r then (k, v @ [r]) # cs else (k, v) # push_category cs r)"

definition buildCategories :: "SearchResult list \<Rightarrow> (string \<times> SearchResult list) list" where
  \<comment> \<open>the \<^verbatim>\<open>for (const result of results)\<close> loop; keys stay in insertion order\<close>
  "buildCategories rs = foldl push_category [] rs"

definition slice0 :: "'a list \<Rightarrow> int \<Rightarrow> 'a list" where
  \<comment> \<open>\<^verbatim>\<open>xs.slice(0, end)\<close>: a negative end counts from the end of the array\<close>
  "slice0 xs e =
     (let len = int (length xs);
          final = (if e < 0 then max (len + e) 0 else min e len)
      in take (nat final) xs)"

definition empty_response :: response where
  "empty_response =
     \<lparr>status = 200,
      body = SearchBody \<lparr>results = [], categories = [], totalCount = None,
                         resp_query = None, resp_intents = None\<rparr>\<rparr>"

definition error_response :: "nat \<Rightarrow> string \<Rightarrow> response" where
  "error_response st msg = \<lparr>status = st, body = ErrorBody msg None\<rparr>"

definition searchPattern_of :: "string \<Rightarrow> string" where
  \<comment> \<open>the constant \<^verbatim>\<open>searchPattern\<close>: the template \<^verbatim>\<open>`%${query.toLowerCase()}%`\<close>\<close>
  "searchPattern_of query = ''%'' @ toLowerCase query @ ''%''"

definition filters_of :: "SearchRequest \<Rightarrow> string list" where
  \<comment> \<open>the default of \<^verbatim>\<open>filters = []\<close> in the destructuring of the body\<close>
  "filters_of rq = (case req_filters rq of None \<Rightarrow> [] | Some f \<Rightarrow> f)"

definition limit_of :: "SearchRequest \<Rightarrow> int" where
  \<comment> \<open>the default of \<^verbatim>\<open>limit = 10\<close>: it applies to an absent limit only\<close>
  "limit_of rq = (case req_limit rq of None \<Rightarrow> 10 | Some l \<Rightarrow> l)"

definition aggregate ::
  "world \<Rightarrow> recent_table \<Rightarrow> string \<Rightarrow> profile \<Rightarrow> SearchRequest
     \<Rightarrow> (string + response) \<times> store_op list \<times> recent_table" where
  \<comment> \<open>the handler from the destructuring of the body to the response; \<^verbatim>\<open>Inl\<close> is a thrown error\<close>
  "aggregate w tb uid userProfile rq =
     (let filters = filters_of rq;
          limit = limit_of rq
      in case req_query rq of
           None \<Rightarrow> (Inr empty_response, [], tb)
         | Some query \<Rightarrow>
             if query = [] \<or> length query < 2 then (Inr empty_response, [], tb)
             else
               let intents = detectQueryIntent query;
                   searchPattern = searchPattern_of query;
                   tsQuery = createFuzzyPattern query;
                   companyId = company_id userProfile;
                   isAdmin = (role userProfile = ''admin'');
                   (ops1, leadsP) = searchLeads w filters limit intents searchPattern companyId;
                   (ops2, usersP) = searchUsers w filters limit isAdmin searchPattern companyId;
                   (ops3, agentsP) = searchAgents w filters limit searchPattern companyId;
                   (ops4, callsP) = searchCalls w filters limit searchPattern companyId;
                   ops = ops1 @ ops2 @ ops3 @ ops4
               in case leadsP of Rejected e \<Rightarrow> (Inl e, ops, tb) | Resolved leadsResults \<Rightarrow>
                  case usersP of Rejected e \<Rightarrow> (Inl e, ops, tb) | Resolved usersResults \<Rightarrow>
                  case agentsP of Rejected e \<Rightarrow> (Inl e, ops, tb) | Resolved agentsResults \<Rightarrow>
                  case callsP of Rejected e \<Rightarrow> (Inl e, ops, tb) | Resolved callsResults \<Rightarrow>
                    let settingsResults = searchSettings filters query;
                        navigationResults = searchNavigation query;
                        results = sortResults
                                    (leadsResults @ usersResults @ agentsResults @ callsResults
                                     @ settingsResults @ navigationResults);
                        categories = buildCategories results;
                        ops = ops @ [Upsert uid (trim query) (now w)]
                    in case recent_upsert w uid (trim query) of
                         Rejected e \<Rightarrow> (Inl e, ops, tb)
                       | Resolved upsertError \<Rightarrow>
                           (Inr \<lparr>status = 200,
                                 body = SearchBody
                                   \<lparr>results = slice0 results limit,
                                    categories = categories,
                                    totalCount = Some (length results),
                                    resp_query = Some query,
                                    resp_intents = Some intents\<rparr>\<rparr>,
                            ops,
                            if upsertError = None
                            then upsert_recent uid (trim query) (now w) tb else tb))"

fun replace_first :: "string \<Rightarrow> string \<Rightarrow> string \<Rightarrow> string" where
  \<comment> \<open>\<^verbatim>\<open>s.replace(pat, rep)\<close> with a string pattern: the first occurrence only\<close>
  "replace_first pat rep [] = (if pat = [] then rep else [])"
| "replace_first pat rep (c # cs) =
     (if startsWith (c # cs) pat then rep @ drop (length pat) (c # cs)
      else c # replace_first pat rep cs)"

definition try_block ::
  "world \<Rightarrow> recent_table \<Rightarrow> http_request
     \<Rightarrow> (string + response) \<times> store_op list \<times> recent_table" where
  "try_block w tb req =
     (case authorization req of
        None \<Rightarrow> (Inr (error_response 401 ''Missing authorization header''), [], tb)
      | Some authHeader \<Rightarrow>
          if authHeader = [] then (Inr (error_response 401 ''Missing authorization header''), [], tb)
          else
            let token = replace_first ''Bearer '' [] authHeader
            in case auth_getUser w token of
                 Rejected e \<Rightarrow> (Inl e, [], tb)
               | Resolved a \<Rightarrow>
                   (case user a of
                      None \<Rightarrow> (Inr (error_response 401 ''Invalid token''), [], tb)
                    | Some uid \<Rightarrow>
                        if userError a \<noteq> None then (Inr (error_response 401 ''Invalid token''), [], tb)
                        else
                          case users_maybeSingle w uid of
                            Rejected e \<Rightarrow> (Inl e, [], tb)
                          | Resolved None \<Rightarrow> (Inr (error_response 404 ''User profile not found''), [], tb)
                          | Resolved (Some userProfile) \<Rightarrow>
                              (case json_body req of
                                 Rejected e \<Rightarrow> (Inl e, [], tb)
                               | Resolved rq \<Rightarrow> aggregate w tb uid userProfile rq)))"

definition handler ::
  "world \<Rightarrow> recent_table \<Rightarrow> http_request \<Rightarrow> response \<times> store_op list \<times> recent_table" where
  \<comment> \<open>the response, the store requests issued by the adapters and the history write, the table afterwards\<close>
  "handler w tb req =
     (if http_method req = ''OPTIONS'' then (\<lparr>status = 200, body = NoBody\<rparr>, [], tb)
      else
        case try_block w tb req of
          (Inr resp, ops, tb') \<Rightarrow> (resp, ops, tb')
        | (Inl message, ops, tb') \<Rightarrow>
            (\<lparr>status = 500, body = ErrorBody ''Internal server error'' (Some message)\<rparr>, ops, tb'))"

definition authenticated ::
  "world \<Rightarrow> http_request \<Rightarrow> string \<Rightarrow> profile \<Rightarrow> SearchRequest \<Rightarrow> bool" where
  \<comment> \<open>the request passes the credential and profile checks and its body parses to \<open>rq\<close>\<close>
  "authenticated w req uid userProfile rq =
     (http_method req \<noteq> ''OPTIONS'' \<and>
      (case authorization req of
         None \<Rightarrow> False
       | Some authHeader \<Rightarrow>
           authHeader \<noteq> [] \<and>
           (case auth_getUser w (replace_first ''Bearer '' [] authHeader) of
              Rejected e \<Rightarrow> False
            | Resolved a \<Rightarrow> user a = Some uid \<and> userError a = None)) \<and>
      users_maybeSingle w uid = Resolved (Some userProfile) \<and>
      json_body req = Resolved rq)"

abbreviation leadsP :: "world \<Rightarrow> profile \<Rightarrow> SearchRequest \<Rightarrow> string \<Rightarrow> SearchResult list awaited" where
  "leadsP w p rq q \<equiv>
     snd (searchLeads w (filters_of rq) (limit_of rq) (detectQueryIntent q) (searchPattern_of q)
            (company_id p))"

abbreviation usersP :: "world \<Rightarrow> profile \<Rightarrow> SearchRequest \<Rightarrow> string \<Rightarrow> SearchResult list awaited" where
  "usersP w p rq q \<equiv>
     snd (searchUsers w (filters_of rq) (limit_of rq) (role p = ''admin'') (searchPattern_of q)
            (company_id p))"

abbreviation agentsP :: "world \<Rightarrow> profile \<Rightarrow> SearchRequest \<Rightarrow> string \<Rightarrow> SearchResult list awaited" where
  "agentsP w p rq q \<equiv>
     snd (searchAgents w (filters_of rq) (limit_of rq) (searchPattern_of q) (company_id p))"

abbreviation callsP :: "world \<Rightarrow> profile \<Rightarrow> SearchRequest \<Rightarrow> string \<Rightarrow> SearchResult list awaited" where
  "callsP w p rq q \<equiv>
     snd (searchCalls w (filters_of rq) (limit_of rq) (searchPattern_of q) (company_id p))"

abbreviation adapter_ops :: "world \<Rightarrow> profile \<Rightarrow> SearchRequest \<Rightarrow> string \<Rightarrow> store_op list" where
  "adapter_ops w p rq q \<equiv>
     fst (searchLeads w (filters_of rq) (limit_of rq) (detectQueryIntent q) (searchPattern_of q)
            (company_id p))
     @ fst (searchUsers w (filters_of rq) (limit_of rq) (role p = ''admin'') (searchPattern_of q)
              (company_id p))
     @ fst (searchAgents w (filters_of rq) (limit_of rq) (searchPattern_of q) (company_id p))
     @ fst (searchCalls w (filters_of rq) (limit_of rq) (searchPattern_of q) (company_id p))"

definition response_results :: "response \<Rightarrow> SearchResult list" where
  \<comment> \<open>the \<open>results\<close> field of a response that has one\<close>
  "response_results r = (case body r of SearchBody b \<Rightarrow> results b | _ \<Rightarrow> [])"


fun uses_pattern :: "string \<Rightarrow> cond \<Rightarrow> bool" where
  \<comment> \<open>every pattern match of the condition is against \<open>pat\<close>\<close>
  "uses_pattern pat (Eq col v) = True"
| "uses_pattern pat (Ilike col x) = (x = pat)"
| "uses_pattern pat (Or x) =
     (x = ''name.ilike.'' @ pat @ '',email.ilike.'' @ pat @ '',mobile.ilike.'' @ pat \<or>
      x = ''name.ilike.'' @ pat @ '',email.ilike.'' @ pat \<or>
      x = ''summary.ilike.'' @ pat)"

definition decrementing :: "int \<Rightarrow> SearchResult list \<Rightarrow> bool" where
  \<comment> \<open>the scores are the base priority minus the position in the list\<close>
  "decrementing base rs = (map priorityScore rs = map (\<lambda>i. base - int i) [0..<length rs])"

section \<open>Client search controller\<close>

text \<open>
  The hook \<^verbatim>\<open>useGlobalSearch\<close>. Its state is the React state, the two refs and the
  invocations of the async function \<^verbatim>\<open>search\<close> that are suspended at one of its three
  \<^verbatim>\<open>await\<close>s. JavaScript runs one piece of code at a time: an event below is either a
  call from the component or the settling of the promise an invocation waits for, and it
  runs the code up to the next \<^verbatim>\<open>await\<close>. Abort controllers are numbered in the order
  of their creation.
\<close>

datatype pc =
    AwaitSession string "string list"
  | AwaitFetch nat string "string list"
  | AwaitJson nat
  | Finished

record hook =
  h_query :: string
  h_results :: "SearchResult list"
  h_categories :: "(string \<times> SearchResult list) list"
  isLoading :: bool
  h_error :: "string option"
  recentFetches :: nat
  debounceTimer :: "(string \<times> string list) option"
  abortControllerRef :: "nat option"
  controllers :: nat
  aborted :: "nat list"
  calls :: "pc list"
  requests :: "(nat \<times> string \<times> string list \<times> int \<times> nat) list"

record options =
  debounceMs :: nat
  minQueryLength :: nat
  opt_limit :: int

definition default_options :: options where
  "default_options = \<lparr>debounceMs = 300, minQueryLength = 2, opt_limit = 10\<rparr>"

definition initial_hook :: hook where
  "initial_hook =
     \<lparr>h_query = [], h_results = [], h_categories = [], isLoading = False, h_error = None,
      recentFetches = 1, debounceTimer = None, abortControllerRef = None, controllers = 0,
      aborted = [], calls = [], requests = []\<rparr>"

fun listens :: "nat \<Rightarrow> pc \<Rightarrow> bool" where
  "listens c (AwaitFetch s q fs) = (s = c)"
| "listens c (AwaitJson s) = (s = c)"
| "listens c p = False"

definition abort :: "nat \<Rightarrow> hook \<Rightarrow> hook" where
  \<comment> \<open>\<^verbatim>\<open>controller.abort()\<close>: the promises that carry its signal reject with AbortError; the
      \<^verbatim>\<open>catch\<close> of their invocation returns and its \<^verbatim>\<open>finally\<close> runs\<close>
  "abort c h =
     h\<lparr>aborted := aborted h @ [c],
       calls := map (\<lambda>p. if listens c p then Finished else p) (calls h),
       isLoading := (if \<exists>p \<in> set (calls h). listens c p then False else isLoading h)\<rparr>"

definition search :: "options \<Rightarrow> string \<Rightarrow> string list \<Rightarrow> hook \<Rightarrow> hook" where
  \<comment> \<open>\<^verbatim>\<open>search(searchQuery, filters)\<close> up to \<^verbatim>\<open>await supabase.auth.getSession()\<close>; the
      continuations of the invocations it aborted run once this code has suspended\<close>
  "search opts searchQuery filters h =
     (if length searchQuery < minQueryLength opts then h\<lparr>h_results := [], h_categories := []\<rparr>
      else
        let h1 = h\<lparr>abortControllerRef := Some (controllers h),
                   controllers := Suc (controllers h),
                   isLoading := True,
                   h_error := None,
                   calls := calls h @ [AwaitSession searchQuery filters]\<rparr>
        in case abortControllerRef h of None \<Rightarrow> h1 | Some c \<Rightarrow> abort c h1)"

definition finish :: "nat \<Rightarrow> hook \<Rightarrow> hook" where
  \<comment> \<open>the \<^verbatim>\<open>finally\<close> block, and the invocation is over\<close>
  "finish k h = h\<lparr>isLoading := False, calls := (calls h)[k := Finished]\<rparr>"

definition caught :: "nat \<Rightarrow> string \<Rightarrow> hook \<Rightarrow> hook" where
  \<comment> \<open>the \<^verbatim>\<open>catch\<close> block for an error that is not an AbortError\<close>
  "caught k msg h = finish k (h\<lparr>h_error := Some msg, h_results := [], h_categories := []\<rparr>)"

definition sessionSettles :: "options \<Rightarrow> nat \<Rightarrow> string option awaited \<Rightarrow> hook \<Rightarrow> hook" where
  \<comment> \<open>from the session check to \<^verbatim>\<open>await fetch(...)\<close>; the signal is read from the ref now\<close>
  "sessionSettles opts k r h =
     (if k < length (calls h) then
        (case calls h ! k of
           AwaitSession searchQuery filters \<Rightarrow>
             (case r of
                Rejected msg \<Rightarrow> caught k msg h
              | Resolved None \<Rightarrow> finish k (h\<lparr>h_error := Some ''Not authenticated''\<rparr>)
              | Resolved (Some token) \<Rightarrow>
                  (case abortControllerRef h of
                     None \<Rightarrow> caught k ''abortControllerRef.current is null'' h
                   | Some c \<Rightarrow>
                       if c \<in> set (aborted h) then finish k h
                       else h\<lparr>calls := (calls h)[k := AwaitFetch c searchQuery filters],
                              requests := requests h @ [(k, searchQuery, filters, opt_limit opts, c)]\<rparr>))
         | _ \<Rightarrow> h)
      else h)"

definition fetchSettles :: "nat \<Rightarrow> bool awaited \<Rightarrow> hook \<Rightarrow> hook" where
  \<comment> \<open>the response arrives (with its \<^verbatim>\<open>ok\<close> flag) or the request fails\<close>
  "fetchSettles k r h =
     (if k < length (calls h) then
        (case calls h ! k of
           AwaitFetch c searchQuery filters \<Rightarrow>
             (case r of
                Rejected msg \<Rightarrow> caught k msg h
              | Resolved ok \<Rightarrow>
                  if \<not> ok then caught k ''Search request failed'' h
                  else h\<lparr>calls := (calls h)[k := AwaitJson c]\<rparr>)
         | _ \<Rightarrow> h)
      else h)"

definition jsonSettles :: "nat \<Rightarrow> search_body awaited \<Rightarrow> hook \<Rightarrow> hook" where
  "jsonSettles k r h =
     (if k < length (calls h) then
        (case calls h ! k of
           AwaitJson c \<Rightarrow>
             (case r of
                Rejected msg \<Rightarrow> caught k msg h
              | Resolved d \<Rightarrow>
                  finish k (h\<lparr>h_results := results d, h_categories := categories d,
                              recentFetches := Suc (recentFetches h)\<rparr>))
         | _ \<Rightarrow> h)
      else h)"

definition debouncedSearch :: "options \<Rightarrow> string \<Rightarrow> string list \<Rightarrow> hook \<Rightarrow> hook" where
  "debouncedSearch opts searchQuery filters h =
     (let h1 = h\<lparr>debounceTimer := None\<rparr>
      in if length searchQuery < minQueryLength opts
         then h1\<lparr>h_results := [], h_categories := [], isLoading := False\<rparr>
         else h1\<lparr>isLoading := True, debounceTimer := Some (searchQuery, filters)\<rparr>)"

definition handleQueryChange :: "options \<Rightarrow> string \<Rightarrow> hook \<Rightarrow> hook" where
  "handleQueryChange opts newQuery h = debouncedSearch opts newQuery [] (h\<lparr>h_query := newQuery\<rparr>)"

definition timerFires :: "options \<Rightarrow> hook \<Rightarrow> hook" where
  "timerFires opts h =
     (case debounceTimer h of
        None \<Rightarrow> h
      | Some (searchQuery, filters) \<Rightarrow> search opts searchQuery filters (h\<lparr>debounceTimer := None\<rparr>))"

definition clearSearch :: "hook \<Rightarrow> hook" where
  "clearSearch h =
     (let h1 = h\<lparr>h_query := [], h_results := [], h_categories := [], h_error := None,
                debounceTimer := None\<rparr>
      in case abortControllerRef h of None \<Rightarrow> h1 | Some c \<Rightarrow> abort c h1)"

datatype event =
    Search string "string list"
  | QueryChange string
  | TimerFires
  | ClearSearch
  | SessionSettles nat "string option awaited"
  | FetchSettles nat "bool awaited"
  | JsonSettles nat "search_body awaited"

fun step :: "options \<Rightarrow> hook \<Rightarrow> event \<Rightarrow> hook" where
  "step opts h (Search q fs) = search opts q fs h"
| "step opts h (QueryChange q) = handleQueryChange opts q h"
| "step opts h TimerFires = timerFires opts h"
| "step opts h ClearSearch = clearSearch h"
| "step opts h (SessionSettles k r) = sessionSettles opts k r h"
| "step opts h (FetchSettles k r) = fetchSettles k r h"
| "step opts h (JsonSettles k r) = jsonSettles k r h"

definition run :: "options \<Rightarrow> event list \<Rightarrow> hook" where
  "run opts evs = foldl (step opts) initial_hook evs"

definition leads_body :: search_body where
  \<comment> \<open>a response of the server to the query leads\<close>
  "leads_body =
     \<lparr>results = searchNavigation ''leads'',
      categories = buildCategories (searchNavigation ''leads''),
      totalCount = Some 1, resp_query = Some ''leads'', resp_intents = Some [''text'']\<rparr>"

definition agents_body :: search_body where
  \<comment> \<open>a response of the server to the query agents\<close>
  "agents_body =
     \<lparr>results = searchNavigation ''agents'',
      categories = buildCategories (searchNavigation ''agents''),
      totalCount = Some 1, resp_query = Some ''agents'', resp_intents = Some [''text'']\<rparr>"

definition overtaken :: "event list" where
  \<comment> \<open>the search for agents is issued while the search for leads waits for its session;
      the response for agents arrives first, the response for leads last\<close>
  "overtaken =
     [Search ''leads'' [],
      Search ''agents'' [],
      SessionSettles 0 (Resolved (Some ''jwt'')),
      SessionSettles 1 (Resolved (Some ''jwt'')),
      FetchSettles 1 (Resolved True),
      JsonSettles 1 (Resolved agents_body),
      FetchSettles 0 (Resolved True),
      JsonSettles 0 (Resolved leads_body)]"

definition superseded :: "event list" where
  \<comment> \<open>the search for agents is issued while the request for leads is on the wire\<close>
  "superseded =
     [Search ''leads'' [],
      SessionSettles 0 (Resolved (Some ''jwt'')),
      Search ''agents'' [],
      SessionSettles 1 (Resolved (Some ''jwt'')),
      FetchSettles 1 (Resolved True),
      JsonSettles 1 (Resolved agents_body),
      FetchSettles 0 (Resolved True),
      JsonSettles 0 (Resolved leads_body)]"

section \<open>Command palette\<close>

definition flatResults :: "(string \<times> SearchResult list) list \<Rightarrow> SearchResult list" where
  \<comment> \<open>\<^verbatim>\<open>Object.values(categories).flat()\<close>\<close>
  "flatResults cats = concat (map snd cats)"

fun findIndex :: "('a \<Rightarrow> bool) \<Rightarrow> 'a list \<Rightarrow> int" where
  "findIndex p [] = - 1"
| "findIndex p (x # xs) =
     (if p x then 0 else (let i = findIndex p xs in if i < 0 then - 1 else i + 1))"

definition globalIndex :: "SearchResult list \<Rightarrow> SearchResult \<Rightarrow> int" where
  \<comment> \<open>\<^verbatim>\<open>flatResults.findIndex(r => r.id === result.id)\<close>\<close>
  "globalIndex flat result = findIndex (\<lambda>r. result_id r = result_id result) flat"

definition integrations_setting :: SearchResult where
  \<comment> \<open>what the settings catalogue emits for the query integrations\<close>
  "integrations_setting =
     \<lparr>result_id = ''integrations'', result_type = ''setting'', title = ''Integrations'',
      subtitle = ''Connect external services'', redirectUrl = ''/integrations'',
      priorityScore = 50, metadata = None\<rparr>"

definition integrations_page :: SearchResult where
  \<comment> \<open>what the navigation catalogue emits for the query integrations\<close>
  "integrations_page =
     \<lparr>result_id = ''integrations'', result_type = ''navigation'', title = ''Integrations'',
      subtitle = ''Connect apps'', redirectUrl = ''/integrations'',
      priorityScore = 90, metadata = None\<rparr>"

section \<open>A sample tenant\<close>

definition acme_admin :: profile where
  "acme_admin = \<lparr>profile_id = ''u-admin'', company_id = Some ''acme'', role = ''admin''\<rparr>"

definition acme_user :: profile where
  "acme_user = \<lparr>profile_id = ''u-user1'', company_id = Some ''acme'', role = ''user''\<rparr>"

definition john_smith :: lead_row where
  "john_smith =
     \<lparr>lead_id = ''l1'', lead_name = ''John Smith'', lead_email = None,
      lead_mobile = ''+1-555-0101'', lead_status = ''new'', lead_source = Some ''website''\<rparr>"

definition john_doe :: user_row where
  "john_doe =
     \<lparr>user_id = ''s1'', user_name = ''John Doe'', user_email = ''john@acme.com'',
      user_phone = None, user_role = ''user''\<rparr>"

definition acme_world :: world where
  "acme_world =
     \<lparr>auth_getUser =
        (\<lambda>t. if t = ''tok-admin'' then Resolved \<lparr>user = Some ''u-admin'', userError = None\<rparr>
             else if t = ''tok-user1'' then Resolved \<lparr>user = Some ''u-user1'', userError = None\<rparr>
             else Resolved \<lparr>user = None, userError = Some ''invalid JWT''\<rparr>),
      users_maybeSingle =
        (\<lambda>u. if u = ''u-admin'' then Resolved (Some acme_admin)
             else if u = ''u-user1'' then Resolved (Some acme_user)
             else Resolved None),
      leads_select =
        (\<lambda>q. if Or ''name.ilike.%john%,email.ilike.%john%,mobile.ilike.%john%'' \<in> set (conds q)
             then Resolved \<lparr>data = Some [john_smith], error = None\<rparr>
             else Resolved \<lparr>data = Some [], error = None\<rparr>),
      users_select =
        (\<lambda>q. if Or ''name.ilike.%john%,email.ilike.%john%'' \<in> set (conds q)
             then Resolved \<lparr>data = Some [john_doe], error = None\<rparr>
             else Resolved \<lparr>data = Some [], error = None\<rparr>),
      agents_select = (\<lambda>q. Resolved \<lparr>data = None, error = Some ''relation does not exist''\<rparr>),
      calls_select = (\<lambda>q. Resolved \<lparr>data = Some [], error = None\<rparr>),
      recent_upsert = (\<lambda>u q. Resolved None),
      now = 1000\<rparr>"

definition acme_history_refused :: world where
  \<comment> \<open>the store answers the history write with an error\<close>
  "acme_history_refused = acme_world\<lparr>recent_upsert := (\<lambda>u q. Resolved (Some ''permission denied''))\<rparr>"

definition post :: "string \<Rightarrow> SearchRequest \<Rightarrow> http_request" where
  "post tok rq =
     \<lparr>http_method = ''POST'', authorization = Some (''Bearer '' @ tok), json_body = Resolved rq\<rparr>"

definition ask :: "string \<Rightarrow> string list option \<Rightarrow> int option \<Rightarrow> SearchRequest" where
  "ask q fs lim = \<lparr>req_query = Some q, req_filters = fs, req_limit = lim\<rparr>"

definition empty_table :: recent_table where
  "empty_table = \<lparr>table_rows = [], next_id = 0\<rparr>"

section \<open>The handler behind the credential checks\<close>

lemma handler_authenticated:
  "authenticated w req uid userProfile rq \<Longrightarrow>
   handler w tb req =
     (case aggregate w tb uid userProfile rq of
        (Inr resp, ops, tb') \<Rightarrow> (resp, ops, tb')
      | (Inl message, ops, tb') \<Rightarrow>
          (\<lparr>status = 500, body = ErrorBody ''Internal server error'' (Some message)\<rparr>, ops, tb'))"
  by (auto simp: authenticated_def handler_def try_block_def Let_def
           split: option.splits awaited.splits)

lemma aggregate_short:
  "(case req_query rq of None \<Rightarrow> True | Some q \<Rightarrow> length q < 2) \<Longrightarrow>
   aggregate w tb uid userProfile rq = (Inr empty_response, [], tb)"
  by (auto simp: aggregate_def Let_def split: option.splits)

lemma acme_admin_authenticated:
  "authenticated acme_world (post ''tok-admin'' rq) ''u-admin'' acme_admin rq"
  by (simp add: authenticated_def acme_world_def post_def)


lemma aggregate_long:
  assumes "req_query rq = Some q" and "2 \<le> length q"
  shows "aggregate w tb uid p rq =
     (case leadsP w p rq q of Rejected e \<Rightarrow> (Inl e, adapter_ops w p rq q, tb) | Resolved leadsResults \<Rightarrow>
      case usersP w p rq q of Rejected e \<Rightarrow> (Inl e, adapter_ops w p rq q, tb) | Resolved usersResults \<Rightarrow>
      case agentsP w p rq q of Rejected e \<Rightarrow> (Inl e, adapter_ops w p rq q, tb) | Resolved agentsResults \<Rightarrow>
      case callsP w p rq q of Rejected e \<Rightarrow> (Inl e, adapter_ops w p rq q, tb) | Resolved callsResults \<Rightarrow>
      case recent_upsert w uid (trim q) of
        Rejected e \<Rightarrow> (Inl e, adapter_ops w p rq q @ [Upsert uid (trim q) (now w)], tb)
      | Resolved upsertError \<Rightarrow>
          (Inr \<lparr>status = 200,
                body = SearchBody
                  \<lparr>results = slice0 (sortResults (leadsResults @ usersResults @ agentsResults @ callsResults
                                 @ searchSettings (filters_of rq) q @ searchNavigation q)) (limit_of rq),
                   categories = buildCategories (sortResults (leadsResults @ usersResults @ agentsResults @ callsResults
                                 @ searchSettings (filters_of rq) q @ searchNavigation q)),
                   totalCount = Some (length (leadsResults @ usersResults @ agentsResults @ callsResults
                                 @ searchSettings (filters_of rq) q @ searchNavigation q)),
                   resp_query = Some q,
                   resp_intents = Some (detectQueryIntent q)\<rparr>\<rparr>,
           adapter_ops w p rq q @ [Upsert uid (trim q) (now w)],
           if upsertError = None then upsert_recent uid (trim q) (now w) tb else tb))"
proof -
  from assms have nz: "q \<noteq> []" "\<not> length q < 2" by auto
  show ?thesis
    using assms(1) nz
    by (simp add: aggregate_def Let_def case_prod_beta sortResults_def split: awaited.splits)
qed

section \<open>Truncation, categories and sorting\<close>

subsection \<open>The slice\<close>


lemma slice0_neg: "e < 0 \<Longrightarrow> slice0 xs e = take (length xs - nat (- e)) xs"
proof -
  assume neg: "e < 0"
  have "nat (max (int (length xs) + e) 0) = length xs - nat (- e)"
    using neg by (simp add: max_def) linarith
  with neg show ?thesis by (simp add: slice0_def Let_def)
qed


subsection \<open>The category map\<close>




lemma keys_push:
  "map fst (push_category cs r) =
     (if result_type r \<in> set (map fst cs) then map fst cs else map fst cs @ [result_type r])"
  by (induction cs r rule: push_category.induct) auto

lemma distinct_keys_push:
  "distinct (map fst cs) \<Longrightarrow> distinct (map fst (push_category cs r))"
  by (simp add: keys_push)

lemma map_of_push:
  "map_of (push_category cs r) k =
     (if k = result_type r
      then Some (case map_of cs k of None \<Rightarrow> [r] | Some v \<Rightarrow> v @ [r])
      else map_of cs k)"
  by (induction cs r rule: push_category.induct) auto

lemma distinct_keys_foldl:
  "distinct (map fst cs) \<Longrightarrow> distinct (map fst (foldl push_category cs rs))"
  by (induction rs arbitrary: cs) (auto simp: distinct_keys_push)

lemma distinct_keys_buildCategories: "distinct (map fst (buildCategories rs))"
  by (simp add: buildCategories_def distinct_keys_foldl)

lemma map_of_buildCategories:
  "map_of (buildCategories rs) k =
     (if \<exists>r \<in> set rs. result_type r = k then Some (filter (\<lambda>r. result_type r = k) rs) else None)"
proof (induction rs rule: rev_induct)
  case Nil
  show ?case by (simp add: buildCategories_def)
next
  case (snoc r rs)
  have step: "buildCategories (rs @ [r]) = push_category (buildCategories rs) r"
    by (simp add: buildCategories_def)
  show ?case
    unfolding step map_of_push using snoc
    by (auto simp: filter_empty_conv)
qed

lemma mset_flat_push:
  "mset (concat (map snd (push_category cs r))) = add_mset r (mset (concat (map snd cs)))"
  by (induction cs r rule: push_category.induct) auto

lemma mset_flat_foldl:
  "mset (concat (map snd (foldl push_category cs rs))) = mset (concat (map snd cs)) + mset rs"
  by (induction rs arbitrary: cs) (auto simp: mset_flat_push)

lemma mset_flatResults: "mset (flatResults (buildCategories rs)) = mset rs"
  by (simp add: flatResults_def buildCategories_def mset_flat_foldl)

lemma set_flatResults: "set (flatResults (buildCategories rs)) = set rs"
  using mset_flatResults [of rs] by (metis set_mset_mset)

lemma bucket_of_buildCategories:
  assumes "(k, v) \<in> set (buildCategories rs)"
  shows "v = filter (\<lambda>r. result_type r = k) rs \<and> v \<noteq> []"
proof -
  from assms distinct_keys_buildCategories [of rs]
  have "map_of (buildCategories rs) k = Some v" by simp
  then show ?thesis
    by (auto simp: map_of_buildCategories filter_empty_conv split: if_splits)
qed

subsection \<open>The sort\<close>

lemma sortResults_sorted: "sorted (map (\<lambda>r. - priorityScore r) (sortResults rs))"
  by (simp add: sortResults_def)

lemma sortResults_descending:
  "sorted_wrt (\<lambda>a b. priorityScore b \<le> priorityScore a) (sortResults rs)"
  using sortResults_sorted [of rs] by (simp add: sorted_wrt_map sorted_map)

lemma sortResults_stable:
  "filter (\<lambda>r. priorityScore r = k) (sortResults rs) = filter (\<lambda>r. priorityScore r = k) rs"
proof -
  have "filter (\<lambda>r. - priorityScore r = - k) (sort_key (\<lambda>r. - priorityScore r) rs)
          = filter (\<lambda>r. - priorityScore r = - k) rs"
    by (rule sort_key_stable)
  then show ?thesis by (simp add: sortResults_def)
qed

lemma mset_sortResults: "mset (sortResults rs) = mset rs"
  by (simp add: sortResults_def)


lemma set_sortResults: "set (sortResults rs) = set rs"
  by (simp add: sortResults_def)

lemma sortResults_unique:
  assumes "mset ys = mset rs"
    and "sorted_wrt (\<lambda>a b. priorityScore b \<le> priorityScore a) ys"
    and "\<And>k. filter (\<lambda>r. priorityScore r = k) ys = filter (\<lambda>r. priorityScore r = k) rs"
  shows "ys = sortResults rs"
proof -
  have s: "sorted (map (\<lambda>r. - priorityScore r) ys)"
    using assms(2) by (simp add: sorted_map)
  have st: "filter (\<lambda>x. - priorityScore k = - priorityScore x) ys
              = filter (\<lambda>x. - priorityScore k = - priorityScore x) rs" if "k \<in> set ys" for k
  proof -
    have e: "(\<lambda>x. - priorityScore k = - priorityScore x) = (\<lambda>x. priorityScore x = priorityScore k)"
      by auto
    show "filter (\<lambda>x. - priorityScore k = - priorityScore x) ys
                       = filter (\<lambda>x. - priorityScore k = - priorityScore x) rs"
      unfolding e by (rule assms(3))
  qed
  have "sort_key (\<lambda>r. - priorityScore r) rs = ys"
    by (rule properties_for_sort_key [OF assms(1) st s])
  then show ?thesis by (simp add: sortResults_def)
qed

subsection \<open>What each adapter emits\<close>

lemma decrementing_enumerate:
  assumes "\<And>idx x. priorityScore (f idx x) = base - int idx"
  shows "decrementing base (map (\<lambda>(idx, x). f idx x) (enumerate 0 xs))"
proof -
  have "map priorityScore (map (\<lambda>(idx, x). f idx x) (enumerate 0 xs))
          = map ((\<lambda>i. base - int i) \<circ> fst) (enumerate 0 xs)"
    by (simp add: assms case_prod_beta comp_def)
  also have "\<dots> = map (\<lambda>i. base - int i) (map fst (enumerate 0 xs))"
    by (simp only: map_map)
  also have "\<dots> = map (\<lambda>i. base - int i) [0..<length xs]"
    by (simp only: map_fst_enumerate add_0)
  finally show ?thesis by (simp add: decrementing_def)
qed

lemma decrementing_Nil: "decrementing base []"
  by (simp add: decrementing_def)

lemma searchLeads_shape:
  assumes "snd (searchLeads w fs lim ints pat cid) = Resolved rs"
  shows "decrementing 100 rs \<and> (\<forall>r \<in> set rs. result_type r = ''lead'')"
  using assms
  by (auto simp: searchLeads_def Let_def decrementing_Nil decrementing_enumerate
           split: if_splits awaited.splits)

lemma searchUsers_shape:
  assumes "snd (searchUsers w fs lim adm pat cid) = Resolved rs"
  shows "decrementing 80 rs \<and> (\<forall>r \<in> set rs. result_type r = ''user'')"
  using assms
  by (auto simp: searchUsers_def Let_def decrementing_Nil decrementing_enumerate
           split: if_splits awaited.splits)

lemma searchAgents_shape:
  assumes "snd (searchAgents w fs lim pat cid) = Resolved rs"
  shows "decrementing 70 rs \<and> (\<forall>r \<in> set rs. result_type r = ''agent'')"
  using assms
  by (auto simp: searchAgents_def Let_def decrementing_Nil decrementing_enumerate
           split: if_splits awaited.splits)

lemma searchCalls_shape:
  assumes "snd (searchCalls w fs lim pat cid) = Resolved rs"
  shows "decrementing 60 rs \<and> (\<forall>r \<in> set rs. result_type r = ''call'')"
  using assms
  by (auto simp: searchCalls_def Let_def decrementing_Nil decrementing_enumerate
           split: if_splits awaited.splits)

lemma searchSettings_shape:
  "decrementing 50 (searchSettings fs q) \<and> (\<forall>r \<in> set (searchSettings fs q). result_type r = ''setting'')"
proof -
  have "decrementing 50 (map (\<lambda>(idx, item).
           (case item of (item_id, item_title, item_subtitle, item_url) \<Rightarrow>
                 \<lparr>result_id = item_id, result_type = ''setting'', title = item_title,
                  subtitle = item_subtitle, redirectUrl = item_url,
                  priorityScore = 50 - int idx, metadata = None\<rparr>)) (enumerate 0 xs))" for xs
    by (rule decrementing_enumerate) (simp add: case_prod_beta)
  then show ?thesis
    by (auto simp: searchSettings_def Let_def decrementing_Nil)
qed

lemma searchNavigation_shape:
  "decrementing 90 (searchNavigation q) \<and> (\<forall>r \<in> set (searchNavigation q). result_type r = ''navigation'')"
proof -
  have "decrementing 90 (map (\<lambda>(idx, item).
           (case item of (item_id, item_title, item_subtitle, item_url, item_keywords) \<Rightarrow>
                 \<lparr>result_id = item_id, result_type = ''navigation'', title = item_title,
                  subtitle = item_subtitle, redirectUrl = item_url,
                  priorityScore = 90 - int idx, metadata = None\<rparr>)) (enumerate 0 xs))" for xs
    by (rule decrementing_enumerate) (simp add: case_prod_beta)
  then show ?thesis
    by (auto simp: searchNavigation_def Let_def)
qed

section \<open>Successful searches\<close>

lemma handler_success:
  assumes "authenticated w req uid p rq"
    and "req_query rq = Some q" and "2 \<le> length q"
    and "leadsP w p rq q = Resolved l" and "usersP w p rq q = Resolved u"
    and "agentsP w p rq q = Resolved a" and "callsP w p rq q = Resolved c"
    and "recent_upsert w uid (trim q) = Resolved e"
  shows "handler w tb req =
           (\<lparr>status = 200,
             body = SearchBody
                \<lparr>results = slice0 (sortResults (l @ u @ a @ c @ searchSettings (filters_of rq) q
                                       @ searchNavigation q)) (limit_of rq),
                 categories = buildCategories (sortResults (l @ u @ a @ c
                                       @ searchSettings (filters_of rq) q @ searchNavigation q)),
                 totalCount = Some (length (l @ u @ a @ c @ searchSettings (filters_of rq) q
                                       @ searchNavigation q)),
                 resp_query = Some q,
                 resp_intents = Some (detectQueryIntent q)\<rparr>\<rparr>,
            adapter_ops w p rq q @ [Upsert uid (trim q) (now w)],
            if e = None then upsert_recent uid (trim q) (now w) tb else tb)"
  unfolding handler_authenticated [OF assms(1)] aggregate_long [OF assms(2,3)]
  by (simp add: assms(4-8))

lemma sorted_wrt_take: "sorted_wrt P xs \<Longrightarrow> sorted_wrt P (take n xs)"
  by (metis append_take_drop_id sorted_wrt_append)
  
lemma sorted_wrt_slice0: "sorted_wrt P xs \<Longrightarrow> sorted_wrt P (slice0 xs e)"
  by (simp add: slice0_def Let_def sorted_wrt_take)

lemma filter_take_prefix: "\<exists>m. filter P (take n xs) = take m (filter P xs)"
proof -
  have "filter P xs = filter P (take n xs) @ filter P (drop n xs)"
    by (metis append_take_drop_id filter_append)
  then have "take (length (filter P (take n xs))) (filter P xs) = filter P (take n xs)"
    by simp
  then show ?thesis by metis
qed

lemma filter_slice0_prefix: "\<exists>m. filter P (slice0 xs e) = take m (filter P xs)"
  by (simp add: slice0_def Let_def filter_take_prefix)

subsection \<open>The sample tenant searched for john\<close>

lemma intents_john: "detectQueryIntent ''john'' = [''text'']"
  by code_simp

lemma pattern_john: "searchPattern_of ''john'' = ''%john%''"
  by code_simp

lemma acme_john_leads:
  "leadsP acme_world p (ask ''john'' None lim) ''john'' =
     Resolved [\<lparr>result_id = ''l1'', result_type = ''lead'', title = ''John Smith'',
                subtitle = ''+1-555-0101'', redirectUrl = ''/leads/l1'', priorityScore = 100,
                metadata = Some [(''status'', JStr ''new''), (''source'', JStr ''website'')]\<rparr>]"
  by (simp add: searchLeads_def leadsQuery_def intents_john pattern_john ask_def filters_of_def acme_world_def
        john_smith_def Let_def rows_of_def or_str_def or_opt_def jstr_def enumerate_eq_zip)

lemma acme_john_users:
  "usersP acme_world acme_admin (ask ''john'' None lim) ''john'' =
     Resolved [\<lparr>result_id = ''s1'', result_type = ''user'', title = ''John Doe'',
                subtitle = ''john@acme.com'', redirectUrl = ''/settings'', priorityScore = 80,
                metadata = Some [(''role'', JStr ''user'')]\<rparr>]"
  by (simp add: searchUsers_def usersQuery_def pattern_john ask_def filters_of_def acme_world_def
        acme_admin_def john_doe_def Let_def rows_of_def or_str_def enumerate_eq_zip)



lemma acme_john_agents:
  "agentsP acme_world p (ask ''john'' None lim) ''john'' = Resolved []"
  by (simp add: searchAgents_def ask_def filters_of_def acme_world_def Let_def)

lemma acme_john_calls:
  "callsP acme_world p (ask ''john'' None lim) ''john'' = Resolved []"
  by (simp add: searchCalls_def ask_def filters_of_def acme_world_def Let_def rows_of_def enumerate_eq_zip)

lemma acme_upsert: "recent_upsert acme_world uid q = Resolved None"
  by (simp add: acme_world_def)

section \<open>Short queries\<close>

text \<open>
  C4. A request that passed the credential checks and whose query is missing, empty or one
  character long is answered with status 200, an empty \<open>results\<close> list and an empty
  \<open>categories\<close> map, whatever its filters and limit are; no adapter sends a request to the
  store and the recent-searches table is left as it was.
\<close>

theorem short_query_empty_success:
  assumes "authenticated w req uid userProfile rq"
    and "case req_query rq of None \<Rightarrow> True | Some q \<Rightarrow> length q < 2"
  shows "handler w tb req =
           (\<lparr>status = 200,
             body = SearchBody \<lparr>results = [], categories = [], totalCount = None,
                                resp_query = None, resp_intents = None\<rparr>\<rparr>,
            [], tb)"
  using assms by (simp add: handler_authenticated aggregate_short empty_response_def)

theorem short_query_empty_success_witness:
  "authenticated acme_world
     (post ''tok-admin'' \<lparr>req_query = Some ''j'', req_filters = Some [''leads''], req_limit = Some 5\<rparr>)
     ''u-admin'' acme_admin
     \<lparr>req_query = Some ''j'', req_filters = Some [''leads''], req_limit = Some 5\<rparr>
   \<and> handler acme_world empty_table
        (post ''tok-admin'' \<lparr>req_query = Some ''j'', req_filters = Some [''leads''], req_limit = Some 5\<rparr>)
      = (\<lparr>status = 200,
          body = SearchBody \<lparr>results = [], categories = [], totalCount = None,
                             resp_query = None, resp_intents = None\<rparr>\<rparr>,
         [], empty_table)"
  using short_query_empty_success
          [OF acme_admin_authenticated,
           of "\<lparr>req_query = Some ''j'', req_filters = Some [''leads''], req_limit = Some 5\<rparr>"
              empty_table]
    acme_admin_authenticated
  by simp

section \<open>Capped results, uncapped categories\<close>



section \<open>Ranking\<close>

text \<open>
  C2. The outputs of the six adapters are concatenated in the order lead, staff account,
  agent, call, settings, navigation; each adapter gives the result at position \<open>i\<close> of
  its output its base priority (100, 80, 70, 60, 50, 90) minus \<open>i\<close>. The merged
  sequence is that concatenation sorted by priority score, highest first, and the sort is
  stable: for every score, the results with that score come in the order of the
  concatenation. The merged sequence is the only rearrangement of the concatenation with
  these two properties, so the adapters' outputs determine the order. The \<open>results\<close>
  field, a prefix of the merged sequence, is sorted and stable in the same sense.
\<close>

theorem merged_sorted_descending_stable:
  assumes "authenticated w req uid p rq"
    and "req_query rq = Some q" and "2 \<le> length q"
    and "leadsP w p rq q = Resolved l" and "usersP w p rq q = Resolved u"
    and "agentsP w p rq q = Resolved a" and "callsP w p rq q = Resolved c"
    and "recent_upsert w uid (trim q) = Resolved e"
  shows "\<exists>b. fst (handler w tb req) = \<lparr>status = 200, body = SearchBody b\<rparr> \<and>
             decrementing 100 l \<and> decrementing 80 u \<and> decrementing 70 a \<and> decrementing 60 c \<and>
             decrementing 50 (searchSettings (filters_of rq) q) \<and>
             decrementing 90 (searchNavigation q) \<and>
             (let emitted = l @ u @ a @ c @ searchSettings (filters_of rq) q @ searchNavigation q;
                  merged = sortResults emitted
              in results b = slice0 merged (limit_of rq) \<and>
                 categories b = buildCategories merged \<and>
                 mset merged = mset emitted \<and>
                 sorted_wrt (\<lambda>x y. priorityScore y \<le> priorityScore x) merged \<and>
                 (\<forall>k. filter (\<lambda>r. priorityScore r = k) merged
                        = filter (\<lambda>r. priorityScore r = k) emitted) \<and>
                 (\<forall>ys. mset ys = mset emitted \<and>
                        sorted_wrt (\<lambda>x y. priorityScore y \<le> priorityScore x) ys \<and>
                        (\<forall>k. filter (\<lambda>r. priorityScore r = k) ys
                               = filter (\<lambda>r. priorityScore r = k) emitted)
                        \<longrightarrow> ys = merged) \<and>
                 sorted_wrt (\<lambda>x y. priorityScore y \<le> priorityScore x) (results b) \<and>
                 (\<forall>k. \<exists>m. filter (\<lambda>r. priorityScore r = k) (results b)
                            = take m (filter (\<lambda>r. priorityScore r = k) emitted)))"
proof -
  let ?emitted = "l @ u @ a @ c @ searchSettings (filters_of rq) q @ searchNavigation q"
  let ?merged = "sortResults ?emitted"
  let ?b = "\<lparr>results = slice0 ?merged (limit_of rq), categories = buildCategories ?merged,
             totalCount = Some (length ?emitted),
             resp_query = Some q, resp_intents = Some (detectQueryIntent q)\<rparr>"
  have h: "fst (handler w tb req) = \<lparr>status = 200, body = SearchBody ?b\<rparr>"
    by (simp add: handler_success [OF assms])
  have d: "decrementing 100 l" "decrementing 80 u" "decrementing 70 a" "decrementing 60 c"
    using searchLeads_shape [OF assms(4)] searchUsers_shape [OF assms(5)]
      searchAgents_shape [OF assms(6)] searchCalls_shape [OF assms(7)] by simp_all
  have ds: "decrementing 50 (searchSettings (filters_of rq) q)" "decrementing 90 (searchNavigation q)"
    using searchSettings_shape searchNavigation_shape by simp_all
  have u: "\<forall>ys. mset ys = mset ?emitted \<and>
                sorted_wrt (\<lambda>x y. priorityScore y \<le> priorityScore x) ys \<and>
                (\<forall>k. filter (\<lambda>r. priorityScore r = k) ys = filter (\<lambda>r. priorityScore r = k) ?emitted)
                \<longrightarrow> ys = ?merged"
    using sortResults_unique by blast
  have st: "\<forall>k. \<exists>m. filter (\<lambda>r. priorityScore r = k) (results ?b)
                      = take m (filter (\<lambda>r. priorityScore r = k) ?emitted)"
  proof
    fix k
    from filter_slice0_prefix [of "\<lambda>r. priorityScore r = k" ?merged "limit_of rq"]
    obtain m where "filter (\<lambda>r. priorityScore r = k) (slice0 ?merged (limit_of rq))
                      = take m (filter (\<lambda>r. priorityScore r = k) ?merged)" by blast
    then show "\<exists>m. filter (\<lambda>r. priorityScore r = k) (results ?b)
                      = take m (filter (\<lambda>r. priorityScore r = k) ?emitted)"
      by (auto simp: sortResults_stable)
  qed
  have so: "sorted_wrt (\<lambda>x y. priorityScore y \<le> priorityScore x) (results ?b)"
    by (simp add: sorted_wrt_slice0 sortResults_descending)
  show ?thesis
    unfolding Let_def
    apply (rule exI [of _ ?b])
    apply (intro conjI)
    using h d ds u st so
    by (simp_all add: mset_sortResults sortResults_descending sortResults_stable)
qed

theorem merged_sorted_descending_stable_witness:
  "authenticated acme_world (post ''tok-admin'' (ask ''john'' None None)) ''u-admin'' acme_admin
     (ask ''john'' None None) \<and>
   req_query (ask ''john'' None None) = Some ''john'' \<and>
   2 \<le> length ''john'' \<and>
   recent_upsert acme_world ''u-admin'' (trim ''john'') = Resolved None \<and>
   (\<exists>b. fst (handler acme_world empty_table (post ''tok-admin'' (ask ''john'' None None)))
          = \<lparr>status = 200, body = SearchBody b\<rparr> \<and>
        sorted_wrt (\<lambda>x y. priorityScore y \<le> priorityScore x) (results b))"
proof -
  have q: "req_query (ask ''john'' None None) = Some ''john''" by (simp add: ask_def)
  have n: "2 \<le> length ''john''" by simp
  from merged_sorted_descending_stable
         [OF acme_admin_authenticated q n acme_john_leads acme_john_users acme_john_agents
             acme_john_calls acme_upsert, of empty_table]
  obtain b where "fst (handler acme_world empty_table (post ''tok-admin'' (ask ''john'' None None)))
          = \<lparr>status = 200, body = SearchBody b\<rparr>"
     and "sorted_wrt (\<lambda>x y. priorityScore y \<le> priorityScore x) (results b)"
    unfolding Let_def by blast
  with acme_admin_authenticated q n acme_upsert show ?thesis by blast
qed

section \<open>Staff accounts\<close>

lemma searchUsers_not_admin:
  "searchUsers w fs lim False pat cid = ([], Resolved [])"
  by (simp add: searchUsers_def)


lemma in_bucket:
  assumes "r \<in> set rs"
  shows "\<exists>bucket. map_of (buildCategories rs) (result_type r) = Some bucket \<and> r \<in> set bucket"
  using assms by (auto simp: map_of_buildCategories)










section \<open>The history write\<close>

lemma handler_history_throws:
  assumes "authenticated w req uid p rq"
    and "req_query rq = Some q" and "2 \<le> length q"
    and "leadsP w p rq q = Resolved l" and "usersP w p rq q = Resolved u"
    and "agentsP w p rq q = Resolved a" and "callsP w p rq q = Resolved c"
    and "recent_upsert w uid (trim q) = Rejected msg"
  shows "handler w tb req =
           (\<lparr>status = 500, body = ErrorBody ''Internal server error'' (Some msg)\<rparr>,
            adapter_ops w p rq q @ [Upsert uid (trim q) (now w)], tb)"
  unfolding handler_authenticated [OF assms(1)] aggregate_long [OF assms(2,3)]
  by (simp add: assms(4-8))

lemma authenticated_upsert_irrelevant:
  "authenticated (w\<lparr>recent_upsert := f\<rparr>) req uid p rq = authenticated w req uid p rq"
  by (simp add: authenticated_def split: option.splits)

lemma adapters_upsert_irrelevant:
  "searchLeads (w\<lparr>recent_upsert := f\<rparr>) fs lim ints pat cid = searchLeads w fs lim ints pat cid"
  "searchUsers (w\<lparr>recent_upsert := f\<rparr>) fs lim adm pat cid = searchUsers w fs lim adm pat cid"
  "searchAgents (w\<lparr>recent_upsert := f\<rparr>) fs lim pat cid = searchAgents w fs lim pat cid"
  "searchCalls (w\<lparr>recent_upsert := f\<rparr>) fs lim pat cid = searchCalls w fs lim pat cid"
  by (simp_all add: searchLeads_def searchUsers_def searchAgents_def searchCalls_def)

text \<open>
  C7. After the aggregation the handler sends one upsert into \<open>recent_searches\<close>, keyed
  by the caller and the trimmed query, and discards what it returns. The store client
  settles a write with a reply that carries the error, if there was one. Whatever that
  reply is, a failure included, the response is the one a successful write gives: status
  200 with the computed results, categories, total count and intents. A failed write
  leaves the table unchanged and is not sent again.
\<close>

theorem history_write_error_value_ignored:
  assumes "authenticated w req uid p rq"
    and "req_query rq = Some q" and "2 \<le> length q"
    and "leadsP w p rq q = Resolved l" and "usersP w p rq q = Resolved u"
    and "agentsP w p rq q = Resolved a" and "callsP w p rq q = Resolved c"
  shows "(\<forall>e. recent_upsert w uid (trim q) = Resolved e \<longrightarrow>
            fst (handler w tb req) =
              \<lparr>status = 200,
               body = SearchBody
                 \<lparr>results = slice0 (sortResults (l @ u @ a @ c @ searchSettings (filters_of rq) q
                                        @ searchNavigation q)) (limit_of rq),
                  categories = buildCategories (sortResults (l @ u @ a @ c
                                        @ searchSettings (filters_of rq) q @ searchNavigation q)),
                  totalCount = Some (length (l @ u @ a @ c @ searchSettings (filters_of rq) q
                                        @ searchNavigation q)),
                  resp_query = Some q,
                  resp_intents = Some (detectQueryIntent q)\<rparr>\<rparr> \<and>
            fst (handler w tb req) = fst (handler (w\<lparr>recent_upsert := (\<lambda>u q. Resolved None)\<rparr>) tb req) \<and>
            fst (snd (handler w tb req)) = adapter_ops w p rq q @ [Upsert uid (trim q) (now w)] \<and>
            (e \<noteq> None \<longrightarrow> snd (snd (handler w tb req)) = tb))"
proof (intro conjI allI impI)
  fix e assume e: "recent_upsert w uid (trim q) = Resolved e"
  show "fst (handler w tb req) =
              \<lparr>status = 200,
               body = SearchBody
                 \<lparr>results = slice0 (sortResults (l @ u @ a @ c @ searchSettings (filters_of rq) q
                                        @ searchNavigation q)) (limit_of rq),
                  categories = buildCategories (sortResults (l @ u @ a @ c
                                        @ searchSettings (filters_of rq) q @ searchNavigation q)),
                  totalCount = Some (length (l @ u @ a @ c @ searchSettings (filters_of rq) q
                                        @ searchNavigation q)),
                  resp_query = Some q,
                  resp_intents = Some (detectQueryIntent q)\<rparr>\<rparr>"
    by (simp add: handler_success [OF assms e])
  have auth': "authenticated (w\<lparr>recent_upsert := (\<lambda>u q. Resolved None)\<rparr>) req uid p rq"
    by (simp add: authenticated_upsert_irrelevant assms(1))
  have ok: "recent_upsert (w\<lparr>recent_upsert := (\<lambda>u q. Resolved None)\<rparr>) uid (trim q) = Resolved None"
    by simp
  have "fst (handler (w\<lparr>recent_upsert := (\<lambda>u q. Resolved None)\<rparr>) tb req) = fst (handler w tb req)"
    apply (subst handler_success [OF auth' assms(2,3) _ _ _ _ ok, of l u a c])
    using assms(4-7) apply (simp_all add: adapters_upsert_irrelevant)
    apply (simp add: handler_success [OF assms e])
    done
  then show "fst (handler w tb req) = fst (handler (w\<lparr>recent_upsert := (\<lambda>u q. Resolved None)\<rparr>) tb req)"
    by simp
  show "fst (snd (handler w tb req)) = adapter_ops w p rq q @ [Upsert uid (trim q) (now w)]"
    by (simp add: handler_success [OF assms e])
  show "snd (snd (handler w tb req)) = tb" if "e \<noteq> None"
    using that by (auto simp: handler_success [OF assms e])
qed

theorem history_write_error_value_ignored_witness:
  "authenticated acme_history_refused (post ''tok-admin'' (ask ''john'' None None)) ''u-admin''
     acme_admin (ask ''john'' None None) \<and>
   recent_upsert acme_history_refused ''u-admin'' (trim ''john'') = Resolved (Some ''permission denied'') \<and>
   status (fst (handler acme_history_refused empty_table (post ''tok-admin'' (ask ''john'' None None)))) = 200 \<and>
   fst (handler acme_history_refused empty_table (post ''tok-admin'' (ask ''john'' None None)))
     = fst (handler acme_world empty_table (post ''tok-admin'' (ask ''john'' None None))) \<and>
   snd (snd (handler acme_history_refused empty_table (post ''tok-admin'' (ask ''john'' None None))))
     = empty_table"
proof -
  have q: "req_query (ask ''john'' None None) = Some ''john''" by (simp add: ask_def)
  have n: "2 \<le> length ''john''" by simp
  have auth: "authenticated acme_history_refused (post ''tok-admin'' (ask ''john'' None None))
                ''u-admin'' acme_admin (ask ''john'' None None)"
    unfolding acme_history_refused_def authenticated_upsert_irrelevant
    by (rule acme_admin_authenticated)
  have refused: "recent_upsert acme_history_refused ''u-admin'' (trim ''john'')
                   = Resolved (Some ''permission denied'')"
    by (simp add: acme_history_refused_def)
  have same: "acme_history_refused\<lparr>recent_upsert := (\<lambda>u q. Resolved None)\<rparr> = acme_world"
    by (simp add: acme_history_refused_def acme_world_def)
  have l: "leadsP acme_history_refused acme_admin (ask ''john'' None None) ''john''
             = leadsP acme_world acme_admin (ask ''john'' None None) ''john''"
    and u: "usersP acme_history_refused acme_admin (ask ''john'' None None) ''john''
             = usersP acme_world acme_admin (ask ''john'' None None) ''john''"
    and a: "agentsP acme_history_refused acme_admin (ask ''john'' None None) ''john''
             = agentsP acme_world acme_admin (ask ''john'' None None) ''john''"
    and c: "callsP acme_history_refused acme_admin (ask ''john'' None None) ''john''
             = callsP acme_world acme_admin (ask ''john'' None None) ''john''"
    by (simp_all only: acme_history_refused_def adapters_upsert_irrelevant)
  note main = history_write_error_value_ignored
         [OF auth q n l [unfolded acme_john_leads] u [unfolded acme_john_users]
             a [unfolded acme_john_agents] c [unfolded acme_john_calls], of empty_table]
  from main refused
  have r: "fst (handler acme_history_refused empty_table (post ''tok-admin'' (ask ''john'' None None)))
          = fst (handler (acme_history_refused\<lparr>recent_upsert := (\<lambda>u q. Resolved None)\<rparr>) empty_table
                   (post ''tok-admin'' (ask ''john'' None None)))"
    by blast
  from main refused
  have t: "snd (snd (handler acme_history_refused empty_table (post ''tok-admin'' (ask ''john'' None None))))
          = empty_table"
    by blast
  from main refused
  have "\<exists>b. fst (handler acme_history_refused empty_table (post ''tok-admin'' (ask ''john'' None None)))
          = \<lparr>status = 200, body = b\<rparr>"
    by blast
  then have st: "status (fst (handler acme_history_refused empty_table
                   (post ''tok-admin'' (ask ''john'' None None)))) = 200"
    by auto
  from r have r': "fst (handler acme_history_refused empty_table (post ''tok-admin'' (ask ''john'' None None)))
          = fst (handler acme_world empty_table (post ''tok-admin'' (ask ''john'' None None)))"
    by (simp only: same)
  from auth refused st r' t show ?thesis by blast
qed

section \<open>The pattern sent to the store\<close>

lemma leadsQuery_uses_pattern: "\<forall>c \<in> set (conds (leadsQuery lim ints pat cid)). uses_pattern pat c"
  by (simp add: leadsQuery_def Let_def)

lemma usersQuery_uses_pattern: "\<forall>c \<in> set (conds (usersQuery lim pat cid)). uses_pattern pat c"
  by (simp add: usersQuery_def)

lemma agentsQuery_uses_pattern: "\<forall>c \<in> set (conds (agentsQuery lim pat cid)). uses_pattern pat c"
  by (simp add: agentsQuery_def)

lemma callsQuery_uses_pattern: "\<forall>c \<in> set (conds (callsQuery lim pat cid)). uses_pattern pat c"
  by (simp add: callsQuery_def)

lemma adapter_selects:
  assumes "Select qb \<in> set (adapter_ops w p rq q)"
  shows "qb \<in> {leadsQuery (limit_of rq) (detectQueryIntent q) (searchPattern_of q) (company_id p),
               usersQuery (limit_of rq) (searchPattern_of q) (company_id p),
               agentsQuery (limit_of rq) (searchPattern_of q) (company_id p),
               callsQuery (limit_of rq) (searchPattern_of q) (company_id p)}"
  using assms
  by (auto simp: searchLeads_def searchUsers_def searchAgents_def searchCalls_def Let_def
           split: if_splits)

lemma handler_ops_long:
  assumes "authenticated w req uid p rq"
    and "req_query rq = Some q" and "2 \<le> length q"
  shows "set (fst (snd (handler w tb req)))
           \<subseteq> set (adapter_ops w p rq q) \<union> {Upsert uid (trim q) (now w)}"
  unfolding handler_authenticated [OF assms(1)] aggregate_long [OF assms(2,3)]
  by (auto split: awaited.splits)

lemma escape_identity:
  assumes "\<forall>c \<in> set q. \<not> unsafe_char c" and "trim q = q"
  shows "escapeSearchQuery q = q"
proof -
  have "map (\<lambda>c. if unsafe_char c then CHR '' '' else c) q = q"
    using assms(1) by (induction q) auto
  then show ?thesis by (simp add: escapeSearchQuery_def assms(2))
qed

lemma toLowerCase_latin1:
  "toLowerCase [CHR 0xC9, CHR ''A'', CHR 0xD7, CHR 0xDF, CHR ''z''] = [CHR 0xE9, CHR ''a'', CHR 0xD7, CHR 0xDF, CHR ''z'']"
  by code_simp

lemma pattern_latin1: "searchPattern_of [CHR 0xC9, CHR ''A''] = [CHR ''%'', CHR 0xE9, CHR ''a'', CHR ''%'']"
  by code_simp

lemma intents_rd: "detectQueryIntent ''R&D'' = [''text'']"
  by code_simp

lemma pattern_rd: "searchPattern_of ''R&D'' = ''%r&d%''"
  by code_simp

lemma sanitized_rd: "''%'' @ toLowerCase (escapeSearchQuery ''R&D'') @ ''%'' = ''%r d%''"
  by code_simp

text \<open>
  C8, as the handler has it. Every request an adapter sends to the store matches against
  the one pattern \<open>searchPattern\<close>, which is \<open>%\<close>, the lower-cased query as the
  caller typed it, \<open>%\<close>: the query is neither sanitized nor trimmed on this path (the
  sanitized form only feeds \<open>tsQuery\<close>, which no adapter reads). Lower-casing maps the
  capitals A to Z and the capitals at the code units 192 to 214 and 216 to 222 to their
  small letters and leaves every other code unit below 256 as it is. The pattern is the one the claim
  names exactly when sanitizing changes nothing, in particular for a query without any
  of the unsafe characters and without leading or trailing white space.
\<close>

theorem store_patterns_use_raw_query:
  assumes "authenticated w req uid p rq"
    and "req_query rq = Some q" and "2 \<le> length q"
  shows "(\<forall>qb. Select qb \<in> set (fst (snd (handler w tb req))) \<longrightarrow>
            (\<forall>c \<in> set (conds qb). uses_pattern (''%'' @ toLowerCase q @ ''%'') c)) \<and>
         ((\<forall>c \<in> set q. \<not> unsafe_char c) \<and> trim q = q \<longrightarrow>
            ''%'' @ toLowerCase q @ ''%'' = ''%'' @ toLowerCase (escapeSearchQuery q) @ ''%'')"
proof (intro conjI allI impI)
  fix qb assume "Select qb \<in> set (fst (snd (handler w tb req)))"
  with handler_ops_long [OF assms, of tb] have "Select qb \<in> set (adapter_ops w p rq q)"
    by auto
  from adapter_selects [OF this]
  have "\<forall>c \<in> set (conds qb). uses_pattern (searchPattern_of q) c"
    using leadsQuery_uses_pattern usersQuery_uses_pattern agentsQuery_uses_pattern
      callsQuery_uses_pattern by auto
  then show "\<forall>c \<in> set (conds qb). uses_pattern (''%'' @ toLowerCase q @ ''%'') c"
    by (simp only: searchPattern_of_def)
next
  assume "(\<forall>c \<in> set q. \<not> unsafe_char c) \<and> trim q = q"
  then show "''%'' @ toLowerCase q @ ''%'' = ''%'' @ toLowerCase (escapeSearchQuery q) @ ''%''"
    by (simp add: escape_identity)
qed

theorem store_patterns_use_raw_query_witness:
  "authenticated acme_world (post ''tok-admin'' (ask ''john'' None None)) ''u-admin'' acme_admin
     (ask ''john'' None None) \<and>
   req_query (ask ''john'' None None) = Some ''john'' \<and>
   2 \<le> length ''john'' \<and>
   Select (agentsQuery 10 ''%john%'' (Some ''acme''))
     \<in> set (fst (snd (handler acme_world empty_table (post ''tok-admin'' (ask ''john'' None None))))) \<and>
   Ilike ''name'' ''%john%'' \<in> set (conds (agentsQuery 10 ''%john%'' (Some ''acme''))) \<and>
   uses_pattern (''%'' @ toLowerCase ''john'' @ ''%'') (Ilike ''name'' ''%john%'') \<and>
   filter unsafe_char ''john'' = [] \<and> trim ''john'' = ''john'' \<and>
   ''%'' @ toLowerCase ''john'' @ ''%'' = ''%'' @ toLowerCase (escapeSearchQuery ''john'') @ ''%''"
proof -
  have q: "req_query (ask ''john'' None None) = Some ''john''" by (simp add: ask_def)
  have n: "2 \<le> length ''john''" by simp
  note main = store_patterns_use_raw_query [OF acme_admin_authenticated q n, of empty_table]
  have sel: "Select (agentsQuery 10 ''%john%'' (Some ''acme''))
     \<in> set (fst (snd (handler acme_world empty_table (post ''tok-admin'' (ask ''john'' None None)))))"
    unfolding handler_success [OF acme_admin_authenticated q n acme_john_leads acme_john_users
                acme_john_agents acme_john_calls acme_upsert]
    by (simp add: searchAgents_def pattern_john ask_def filters_of_def limit_of_def acme_admin_def
          Let_def)
  have il: "Ilike ''name'' ''%john%'' \<in> set (conds (agentsQuery 10 ''%john%'' (Some ''acme'')))"
    by (simp add: agentsQuery_def)
  from main sel il
  have up: "uses_pattern (''%'' @ toLowerCase ''john'' @ ''%'') (Ilike ''name'' ''%john%'')"
    by blast
  have safe: "filter unsafe_char ''john'' = []" by code_simp
  have tr: "trim ''john'' = ''john''" by code_simp
  from safe have "\<forall>c \<in> set ''john''. \<not> unsafe_char c"
    by (simp only: filter_empty_conv) 
  with main tr
  have eq: "''%'' @ toLowerCase ''john'' @ ''%'' = ''%'' @ toLowerCase (escapeSearchQuery ''john'') @ ''%''"
    by blast
  from acme_admin_authenticated q n sel il up safe tr eq show ?thesis by blast
qed

text \<open>
  C8 as stated fails for the query \<open>R&D\<close>: the agents adapter matches names against
  \<open>%r&d%\<close>, while the pattern built from the sanitized query is \<open>%r d%\<close>.
\<close>

theorem store_pattern_sanitized_counterexample:
  "Select (agentsQuery 10 ''%r&d%'' (Some ''acme''))
     \<in> set (fst (snd (handler acme_world empty_table (post ''tok-admin'' (ask ''R&D'' None None))))) \<and>
   Ilike ''name'' ''%r&d%'' \<in> set (conds (agentsQuery 10 ''%r&d%'' (Some ''acme''))) \<and>
   ''%'' @ toLowerCase (escapeSearchQuery ''R&D'') @ ''%'' = ''%r d%''"
proof -
  have q: "req_query (ask ''R&D'' None None) = Some ''R&D''" by (simp add: ask_def)
  have n: "2 \<le> length ''R&D''" by simp
  have l: "leadsP acme_world acme_admin (ask ''R&D'' None None) ''R&D'' = Resolved []"
    by (simp add: searchLeads_def leadsQuery_def intents_rd pattern_rd ask_def filters_of_def
          acme_world_def Let_def rows_of_def enumerate_eq_zip)
  have u: "usersP acme_world acme_admin (ask ''R&D'' None None) ''R&D'' = Resolved []"
    by (simp add: searchUsers_def usersQuery_def pattern_rd ask_def filters_of_def
          acme_world_def Let_def rows_of_def enumerate_eq_zip)
  have a: "agentsP acme_world acme_admin (ask ''R&D'' None None) ''R&D'' = Resolved []"
    by (simp add: searchAgents_def ask_def filters_of_def acme_world_def Let_def)
  have c: "callsP acme_world acme_admin (ask ''R&D'' None None) ''R&D'' = Resolved []"
    by (simp add: searchCalls_def ask_def filters_of_def acme_world_def Let_def rows_of_def
          enumerate_eq_zip)
  have "Select (agentsQuery 10 ''%r&d%'' (Some ''acme''))
     \<in> set (fst (snd (handler acme_world empty_table (post ''tok-admin'' (ask ''R&D'' None None)))))"
    unfolding handler_success [OF acme_admin_authenticated q n l u a c acme_upsert]
    by (simp add: searchAgents_def pattern_rd ask_def filters_of_def limit_of_def acme_admin_def
          Let_def)
  moreover have "Ilike ''name'' ''%r&d%'' \<in> set (conds (agentsQuery 10 ''%r&d%'' (Some ''acme'')))"
    by (simp add: agentsQuery_def)
  ultimately show ?thesis using sanitized_rd by simp
qed

section \<open>Malformed input\<close>

lemma aggregate_cong:
  assumes "req_query rq = req_query rq'" and "filters_of rq = filters_of rq'"
    and "limit_of rq = limit_of rq'"
  shows "aggregate w tb uid p rq = aggregate w tb uid p rq'"
  using assms by (simp add: aggregate_def)

lemma authenticated_body:
  "authenticated w req uid p rq \<Longrightarrow> authenticated w (req\<lparr>json_body := Resolved rq'\<rparr>) uid p rq'"
  by (simp add: authenticated_def)

lemma handler_ops_success_limits:
  assumes "Select qb \<in> set (adapter_ops w p rq q)"
  shows "row_limit qb = limit_of rq"
  using adapter_selects [OF assms]
  by (auto simp: leadsQuery_def usersQuery_def agentsQuery_def callsQuery_def Let_def)

lemma intents_settings: "detectQueryIntent ''settings'' = [''text'']"
  by code_simp

lemma pattern_settings: "searchPattern_of ''settings'' = ''%settings%''"
  by code_simp

lemma acme_settings_leads:
  "leadsP acme_world p (ask ''settings'' None lim) ''settings'' = Resolved []"
  by (simp add: searchLeads_def leadsQuery_def intents_settings pattern_settings ask_def
        filters_of_def acme_world_def Let_def rows_of_def enumerate_eq_zip)

lemma acme_settings_users:
  "usersP acme_world p (ask ''settings'' None lim) ''settings'' = Resolved []"
  by (simp add: searchUsers_def usersQuery_def pattern_settings ask_def filters_of_def
        acme_world_def Let_def rows_of_def enumerate_eq_zip)

lemma acme_settings_agents:
  "agentsP acme_world p (ask ''settings'' None lim) ''settings'' = Resolved []"
  by (simp add: searchAgents_def ask_def filters_of_def acme_world_def Let_def)

lemma acme_settings_calls:
  "callsP acme_world p (ask ''settings'' None lim) ''settings'' = Resolved []"
  by (simp add: searchCalls_def ask_def filters_of_def acme_world_def Let_def rows_of_def
        enumerate_eq_zip)

lemma settings_all_but_last:
  "map result_id
     (take (length (sortResults ([] @ [] @ [] @ [] @ searchSettings (filters_of (ask ''settings'' None (Some (- 1)))) ''settings''
                                  @ searchNavigation ''settings''))
            - nat (- limit_of (ask ''settings'' None (Some (- 1)))))
        (sortResults ([] @ [] @ [] @ [] @ searchSettings (filters_of (ask ''settings'' None (Some (- 1)))) ''settings''
                        @ searchNavigation ''settings'')))
   = [''settings'', ''profile'', ''notifications'']"
  by code_simp

text \<open>
  C9, as the handler has it. An absent limit is replaced by the default 10: the request
  without a limit is handled exactly as the one with limit 10. A negative limit is not
  replaced: it is handed to the store requests as it is, and \<open>results.slice(0, limit)\<close>
  then drops the last \<open>|limit|\<close> entries of the sorted sequence; the response is still
  a success with the untruncated categories. A request with no query field is answered as
  one with an empty query: status 200 with empty results and categories.
\<close>

theorem limit_default_and_missing_query:
  assumes "authenticated w req uid p rq"
  shows "handler w tb (req\<lparr>json_body := Resolved (rq\<lparr>req_limit := None\<rparr>)\<rparr>)
           = handler w tb (req\<lparr>json_body := Resolved (rq\<lparr>req_limit := Some 10\<rparr>)\<rparr>) \<and>
         (req_query rq = None \<longrightarrow>
            handler w tb req =
              (\<lparr>status = 200,
                body = SearchBody \<lparr>results = [], categories = [], totalCount = None,
                                   resp_query = None, resp_intents = None\<rparr>\<rparr>,
               [], tb)) \<and>
         (\<forall>q l u a c e.
            req_query rq = Some q \<and> 2 \<le> length q \<and> limit_of rq < 0 \<and>
            leadsP w p rq q = Resolved l \<and> usersP w p rq q = Resolved u \<and>
            agentsP w p rq q = Resolved a \<and> callsP w p rq q = Resolved c \<and>
            recent_upsert w uid (trim q) = Resolved e \<longrightarrow>
            (\<exists>b. fst (handler w tb req) = \<lparr>status = 200, body = SearchBody b\<rparr> \<and>
                 (let merged = sortResults (l @ u @ a @ c @ searchSettings (filters_of rq) q
                                              @ searchNavigation q)
                  in results b = take (length merged - nat (- limit_of rq)) merged \<and>
                     categories b = buildCategories merged) \<and>
                 (\<forall>qb. Select qb \<in> set (fst (snd (handler w tb req))) \<longrightarrow>
                         row_limit qb = limit_of rq)))"
proof (intro conjI allI impI)
  have "aggregate w tb uid p (rq\<lparr>req_limit := None\<rparr>) = aggregate w tb uid p (rq\<lparr>req_limit := Some 10\<rparr>)"
    by (rule aggregate_cong) (simp_all add: filters_of_def limit_of_def)
  then show "handler w tb (req\<lparr>json_body := Resolved (rq\<lparr>req_limit := None\<rparr>)\<rparr>)
           = handler w tb (req\<lparr>json_body := Resolved (rq\<lparr>req_limit := Some 10\<rparr>)\<rparr>)"
    by (simp add: handler_authenticated [OF authenticated_body [OF assms]])
next
  assume "req_query rq = None"
  then show "handler w tb req =
              (\<lparr>status = 200,
                body = SearchBody \<lparr>results = [], categories = [], totalCount = None,
                                   resp_query = None, resp_intents = None\<rparr>\<rparr>,
               [], tb)"
    by (simp add: handler_authenticated [OF assms] aggregate_short empty_response_def)
next
  fix q l u a c e
  assume h: "req_query rq = Some q \<and> 2 \<le> length q \<and> limit_of rq < 0 \<and>
            leadsP w p rq q = Resolved l \<and> usersP w p rq q = Resolved u \<and>
            agentsP w p rq q = Resolved a \<and> callsP w p rq q = Resolved c \<and>
            recent_upsert w uid (trim q) = Resolved e"
  let ?emitted = "l @ u @ a @ c @ searchSettings (filters_of rq) q @ searchNavigation q"
  let ?merged = "sortResults ?emitted"
  let ?b = "\<lparr>results = slice0 ?merged (limit_of rq), categories = buildCategories ?merged,
             totalCount = Some (length ?emitted),
             resp_query = Some q, resp_intents = Some (detectQueryIntent q)\<rparr>"
  from h have hs: "handler w tb req =
           (\<lparr>status = 200, body = SearchBody ?b\<rparr>,
            adapter_ops w p rq q @ [Upsert uid (trim q) (now w)],
            if e = None then upsert_recent uid (trim q) (now w) tb else tb)"
    using handler_success [OF assms, of q l u a c e tb] by blast
  have r: "results ?b = take (length ?merged - nat (- limit_of rq)) ?merged"
    using h by (simp add: slice0_neg)
  have lims: "\<forall>qb. Select qb \<in> set (fst (snd (handler w tb req))) \<longrightarrow> row_limit qb = limit_of rq"
    unfolding hs using handler_ops_success_limits [where w = w and p = p and rq = rq and q = q]
    by auto
  show "\<exists>b. fst (handler w tb req) = \<lparr>status = 200, body = SearchBody b\<rparr> \<and>
                 (let merged = sortResults (l @ u @ a @ c @ searchSettings (filters_of rq) q
                                              @ searchNavigation q)
                  in results b = take (length merged - nat (- limit_of rq)) merged \<and>
                     categories b = buildCategories merged) \<and>
                 (\<forall>qb. Select qb \<in> set (fst (snd (handler w tb req))) \<longrightarrow>
                         row_limit qb = limit_of rq)"
    unfolding Let_def
    apply (rule exI [of _ ?b])
    using hs r lims by simp
qed

theorem limit_default_and_missing_query_witness:
  "authenticated acme_world (post ''tok-admin'' (ask ''settings'' None (Some (- 1)))) ''u-admin''
     acme_admin (ask ''settings'' None (Some (- 1))) \<and>
   req_query (ask ''settings'' None (Some (- 1))) = Some ''settings'' \<and>
   2 \<le> length ''settings'' \<and>
   limit_of (ask ''settings'' None (Some (- 1))) < 0 \<and>
   recent_upsert acme_world ''u-admin'' (trim ''settings'') = Resolved None \<and>
   (\<exists>b. fst (handler acme_world empty_table (post ''tok-admin'' (ask ''settings'' None (Some (- 1)))))
          = \<lparr>status = 200, body = SearchBody b\<rparr> \<and>
        map result_id (results b) = [''settings'', ''profile'', ''notifications'']) \<and>
   authenticated acme_world
     (post ''tok-admin'' \<lparr>req_query = None, req_filters = None, req_limit = None\<rparr>) ''u-admin''
     acme_admin \<lparr>req_query = None, req_filters = None, req_limit = None\<rparr> \<and>
   req_query \<lparr>req_query = None, req_filters = None, req_limit = None\<rparr> = None \<and>
   status (fst (handler acme_world empty_table
                  (post ''tok-admin'' \<lparr>req_query = None, req_filters = None, req_limit = None\<rparr>))) = 200"
proof -
  have q: "req_query (ask ''settings'' None (Some (- 1))) = Some ''settings''" by (simp add: ask_def)
  have n: "2 \<le> length ''settings''" by simp
  have neg: "limit_of (ask ''settings'' None (Some (- 1))) < 0" by (simp add: ask_def limit_of_def)
  note first = limit_default_and_missing_query
                 [OF acme_admin_authenticated [of "ask ''settings'' None (Some (- 1))"],
                  of empty_table]
  from first q n neg acme_settings_leads [where p = acme_admin and lim = "Some (- 1)"]
    acme_settings_users [where p = acme_admin and lim = "Some (- 1)"]
    acme_settings_agents [where p = acme_admin and lim = "Some (- 1)"]
    acme_settings_calls [where p = acme_admin and lim = "Some (- 1)"]
    acme_upsert [where uid = "''u-admin''" and q = "trim ''settings''"]
  obtain b where b: "fst (handler acme_world empty_table
                       (post ''tok-admin'' (ask ''settings'' None (Some (- 1)))))
                     = \<lparr>status = 200, body = SearchBody b\<rparr>"
    and r: "results b =
              take (length (sortResults ([] @ [] @ [] @ [] @ searchSettings (filters_of (ask ''settings'' None (Some (- 1)))) ''settings''
                                  @ searchNavigation ''settings''))
                    - nat (- limit_of (ask ''settings'' None (Some (- 1)))))
                (sortResults ([] @ [] @ [] @ [] @ searchSettings (filters_of (ask ''settings'' None (Some (- 1)))) ''settings''
                        @ searchNavigation ''settings''))"
    unfolding Let_def by blast
  have ids: "map result_id (results b) = [''settings'', ''profile'', ''notifications'']"
    unfolding r by (rule settings_all_but_last)
  have none: "req_query \<lparr>req_query = None, req_filters = None, req_limit = None\<rparr> = None"
    by simp
  from limit_default_and_missing_query
         [OF acme_admin_authenticated
               [of "\<lparr>req_query = None, req_filters = None, req_limit = None\<rparr>"],
          of empty_table] none
  have "handler acme_world empty_table
          (post ''tok-admin'' \<lparr>req_query = None, req_filters = None, req_limit = None\<rparr>)
        = (\<lparr>status = 200,
            body = SearchBody \<lparr>results = [], categories = [], totalCount = None,
                               resp_query = None, resp_intents = None\<rparr>\<rparr>,
           [], empty_table)"
    by blast
  then have st: "status (fst (handler acme_world empty_table
                  (post ''tok-admin'' \<lparr>req_query = None, req_filters = None, req_limit = None\<rparr>))) = 200"
    by simp
  show ?thesis
  proof (intro conjI)
    show "\<exists>b. fst (handler acme_world empty_table
                    (post ''tok-admin'' (ask ''settings'' None (Some (- 1)))))
                = \<lparr>status = 200, body = SearchBody b\<rparr> \<and>
              map result_id (results b) = [''settings'', ''profile'', ''notifications'']"
      by (rule exI [of _ b], rule conjI, rule b, rule ids)
  qed (rule acme_admin_authenticated q n neg acme_upsert none st)+
qed

text \<open>
  C9 as stated fails twice. The request with no query field is answered with status 200,
  not with a client error. And for the query \<open>settings\<close> the limit \<open>-1\<close> is not
  replaced by 10: the response with limit \<open>-1\<close> lists three of the four matches, the
  response with limit 10 all four.
\<close>

theorem malformed_input_counterexample:
  "status (fst (handler acme_world empty_table
            (post ''tok-admin'' \<lparr>req_query = None, req_filters = None, req_limit = None\<rparr>))) = 200 \<and>
   map result_id (response_results (fst (handler acme_world empty_table
            (post ''tok-admin'' (ask ''settings'' None (Some (- 1)))))))
     = [''settings'', ''profile'', ''notifications''] \<and>
   map result_id (response_results (fst (handler acme_world empty_table
            (post ''tok-admin'' (ask ''settings'' None (Some 10))))))
     = [''settings'', ''profile'', ''notifications'', ''company'']"
  by code_simp

section \<open>Result ids in the palette\<close>

lemma findIndex_nonneg_iff: "0 \<le> findIndex p xs \<longleftrightarrow> (\<exists>x \<in> set xs. p x)"
  by (induction xs) (auto simp: Let_def)

lemma findIndex_first:
  assumes "0 \<le> findIndex p xs"
  shows "nat (findIndex p xs) < length xs \<and> p (xs ! nat (findIndex p xs)) \<and>
         (\<forall>j < nat (findIndex p xs). \<not> p (xs ! j))"
  using assms
proof (induction xs)
  case Nil
  then show ?case by simp
next
  case (Cons x xs)
  show ?case
  proof (cases "p x")
    case True
    then show ?thesis by simp
  next
    case False
    with Cons.prems have nn: "0 \<le> findIndex p xs"
      by (simp add: Let_def split: if_splits)
    from Cons.IH [OF nn] have ih: "nat (findIndex p xs) < length xs"
      "p (xs ! nat (findIndex p xs))" "\<forall>j < nat (findIndex p xs). \<not> p (xs ! j)"
      by simp_all
    have eq: "findIndex p (x # xs) = findIndex p xs + 1"
      using False nn by (simp add: Let_def)
    have n: "nat (findIndex p xs + 1) = Suc (nat (findIndex p xs))"
      using nn by simp
    show ?thesis
      unfolding eq n using ih False
      by (auto simp: less_Suc_eq_0_disj)
  qed
qed

lemma globalIndex_first:
  "\<forall>row \<in> set flat.
     0 \<le> globalIndex flat row \<and>
     nat (globalIndex flat row) < length flat \<and>
     result_id (flat ! nat (globalIndex flat row)) = result_id row \<and>
     (\<forall>k < nat (globalIndex flat row). result_id (flat ! k) \<noteq> result_id row)"
proof
  fix row assume "row \<in> set flat"
  then have nn: "0 \<le> findIndex (\<lambda>r. result_id r = result_id row) flat"
    unfolding findIndex_nonneg_iff by blast
  from findIndex_first [OF nn] nn
  show "0 \<le> globalIndex flat row \<and>
     nat (globalIndex flat row) < length flat \<and>
     result_id (flat ! nat (globalIndex flat row)) = result_id row \<and>
     (\<forall>k < nat (globalIndex flat row). result_id (flat ! k) \<noteq> result_id row)"
    by (simp add: globalIndex_def)
qed

lemma globalIndex_after_lead:
  "globalIndex [integrations_page\<lparr>result_id := ''l1'', result_type := ''lead''\<rparr>,
                integrations_page, integrations_setting] integrations_setting = 1 \<and>
   globalIndex [integrations_page\<lparr>result_id := ''l1'', result_type := ''lead''\<rparr>,
                integrations_page, integrations_setting] integrations_page = 1"
  by code_simp

lemma settings_integrations: "searchSettings [] ''integrations'' = [integrations_setting]"
  by code_simp

lemma navigation_integrations: "searchNavigation ''integrations'' = [integrations_page]"
  by code_simp

lemma two_positions:
  assumes "x \<in> set xs" and "y \<in> set xs" and "x \<noteq> y"
  shows "\<exists>i j. i < length xs \<and> j < length xs \<and> i \<noteq> j \<and> xs ! i = x \<and> xs ! j = y"
  using assms by (metis in_set_conv_nth)

lemma acme_integrations_leads:
  "leadsP acme_world acme_admin (ask ''integrations'' None None) ''integrations'' = Resolved []"
  by code_simp

lemma acme_integrations_users:
  "usersP acme_world acme_admin (ask ''integrations'' None None) ''integrations'' = Resolved []"
  by code_simp

lemma acme_integrations_agents:
  "agentsP acme_world acme_admin (ask ''integrations'' None None) ''integrations'' = Resolved []"
  by code_simp

lemma acme_integrations_calls:
  "callsP acme_world acme_admin (ask ''integrations'' None None) ''integrations'' = Resolved []"
  by code_simp

text \<open>
  C10. Result ids do not identify the rows of the merged list. For the query
  \<open>integrations\<close> with no type filter, the settings catalogue emits one result and the
  navigation catalogue emits one result, both with the id \<open>integrations\<close>, one of type
  \<open>setting\<close> and one of type \<open>navigation\<close>; whatever the store returns, both are in
  their category and stand at two different positions of the palette's flattened list. The
  palette computes the index of a row as the first position whose id equals the row's id:
  for every row of the flattened list the index lies inside the list, the row at the
  index carries the row's id and no earlier row does. So it computes the same index for
  both rows, the first position that carries the id \<open>integrations\<close>.
\<close>

theorem integrations_rows_share_index:
  assumes "authenticated w req uid p rq"
    and "req_query rq = Some ''integrations''" and "filters_of rq = []"
    and "leadsP w p rq ''integrations'' = Resolved l" and "usersP w p rq ''integrations'' = Resolved u"
    and "agentsP w p rq ''integrations'' = Resolved a" and "callsP w p rq ''integrations'' = Resolved c"
    and "recent_upsert w uid (trim ''integrations'') = Resolved e"
  shows "\<exists>b. fst (handler w tb req) = \<lparr>status = 200, body = SearchBody b\<rparr> \<and>
             searchSettings (filters_of rq) ''integrations'' = [integrations_setting] \<and>
             searchNavigation ''integrations'' = [integrations_page] \<and>
             result_id integrations_setting = ''integrations'' \<and>
             result_type integrations_setting = ''setting'' \<and>
             result_id integrations_page = ''integrations'' \<and>
             result_type integrations_page = ''navigation'' \<and>
             (\<exists>bucket. map_of (categories b) ''setting'' = Some bucket \<and>
                       integrations_setting \<in> set bucket) \<and>
             (\<exists>bucket. map_of (categories b) ''navigation'' = Some bucket \<and>
                       integrations_page \<in> set bucket) \<and>
             (\<exists>i j. i < length (flatResults (categories b)) \<and>
                    j < length (flatResults (categories b)) \<and> i \<noteq> j \<and>
                    flatResults (categories b) ! i = integrations_setting \<and>
                    flatResults (categories b) ! j = integrations_page) \<and>
             globalIndex (flatResults (categories b)) integrations_setting
               = globalIndex (flatResults (categories b)) integrations_page \<and>
             0 \<le> globalIndex (flatResults (categories b)) integrations_setting \<and>
             (\<forall>k < nat (globalIndex (flatResults (categories b)) integrations_setting).
                 result_id (flatResults (categories b) ! k) \<noteq> ''integrations'') \<and>
             nat (globalIndex (flatResults (categories b)) integrations_setting)
               < length (flatResults (categories b)) \<and>
             result_id (flatResults (categories b)
                          ! nat (globalIndex (flatResults (categories b)) integrations_setting))
               = ''integrations'' \<and>
             (\<forall>row \<in> set (flatResults (categories b)).
                 0 \<le> globalIndex (flatResults (categories b)) row \<and>
                 nat (globalIndex (flatResults (categories b)) row) < length (flatResults (categories b)) \<and>
                 result_id (flatResults (categories b) ! nat (globalIndex (flatResults (categories b)) row))
                   = result_id row \<and>
                 (\<forall>k < nat (globalIndex (flatResults (categories b)) row).
                     result_id (flatResults (categories b) ! k) \<noteq> result_id row))"
proof -
  let ?q = "''integrations''"
  let ?emitted = "l @ u @ a @ c @ searchSettings (filters_of rq) ?q @ searchNavigation ?q"
  let ?merged = "sortResults ?emitted"
  let ?b = "\<lparr>results = slice0 ?merged (limit_of rq), categories = buildCategories ?merged,
             totalCount = Some (length ?emitted),
             resp_query = Some ?q, resp_intents = Some (detectQueryIntent ?q)\<rparr>"
  let ?flat = "flatResults (categories ?b)"
  have n: "2 \<le> length ?q" by simp
  have h: "fst (handler w tb req) = \<lparr>status = 200, body = SearchBody ?b\<rparr>"
    by (simp add: handler_success [OF assms(1,2) n assms(4-8)])
  have ss: "searchSettings (filters_of rq) ?q = [integrations_setting]"
    by (simp only: assms(3) settings_integrations)
  have sn: "searchNavigation ?q = [integrations_page]"
    by (rule navigation_integrations)
  have ids: "result_id integrations_setting = ?q" "result_type integrations_setting = ''setting''"
    "result_id integrations_page = ?q" "result_type integrations_page = ''navigation''"
    by (simp_all add: integrations_setting_def integrations_page_def)
  have ne: "integrations_setting \<noteq> integrations_page"
    by (simp add: integrations_setting_def integrations_page_def)
  have ms: "integrations_setting \<in> set ?merged" and mn: "integrations_page \<in> set ?merged"
    by (simp_all add: set_sortResults ss sn)
  from in_bucket [OF ms] ids
  have bs: "\<exists>bucket. map_of (categories ?b) ''setting'' = Some bucket \<and>
                     integrations_setting \<in> set bucket"
    by simp
  from in_bucket [OF mn] ids
  have bn: "\<exists>bucket. map_of (categories ?b) ''navigation'' = Some bucket \<and>
                     integrations_page \<in> set bucket"
    by simp
  have fs: "integrations_setting \<in> set ?flat" and fn: "integrations_page \<in> set ?flat"
    using ms mn by (simp_all add: set_flatResults)
  have pos: "\<exists>i j. i < length ?flat \<and> j < length ?flat \<and> i \<noteq> j \<and>
                  ?flat ! i = integrations_setting \<and> ?flat ! j = integrations_page"
    by (rule two_positions [OF fs fn ne])
  have same: "globalIndex ?flat integrations_setting = globalIndex ?flat integrations_page"
    by (simp add: globalIndex_def ids)
  have nonneg: "0 \<le> globalIndex ?flat integrations_setting"
    unfolding globalIndex_def findIndex_nonneg_iff using fs by blast
  have first: "\<forall>k < nat (globalIndex ?flat integrations_setting).
                 result_id (?flat ! k) \<noteq> ''integrations''"
    using findIndex_first [OF nonneg [unfolded globalIndex_def]]
    by (simp add: globalIndex_def ids)
  have bound: "nat (globalIndex ?flat integrations_setting) < length ?flat"
    using findIndex_first [OF nonneg [unfolded globalIndex_def]]
    by (simp add: globalIndex_def)
  have found: "result_id (?flat ! nat (globalIndex ?flat integrations_setting)) = ''integrations''"
    using findIndex_first [OF nonneg [unfolded globalIndex_def]]
    by (simp add: globalIndex_def ids)
  have every: "\<forall>row \<in> set ?flat.
                 0 \<le> globalIndex ?flat row \<and>
                 nat (globalIndex ?flat row) < length ?flat \<and>
                 result_id (?flat ! nat (globalIndex ?flat row)) = result_id row \<and>
                 (\<forall>k < nat (globalIndex ?flat row). result_id (?flat ! k) \<noteq> result_id row)"
    by (rule globalIndex_first)
  show ?thesis
    apply (rule exI [of _ ?b])
    apply (intro conjI)
    using h ss sn ids bs bn pos same nonneg first bound found every
    by simp_all
qed

theorem integrations_rows_share_index_witness:
  "authenticated acme_world (post ''tok-admin'' (ask ''integrations'' None None)) ''u-admin''
     acme_admin (ask ''integrations'' None None) \<and>
   req_query (ask ''integrations'' None None) = Some ''integrations'' \<and>
   filters_of (ask ''integrations'' None None) = [] \<and>
   recent_upsert acme_world ''u-admin'' (trim ''integrations'') = Resolved None \<and>
   (\<exists>b. fst (handler acme_world empty_table (post ''tok-admin'' (ask ''integrations'' None None)))
          = \<lparr>status = 200, body = SearchBody b\<rparr> \<and>
        (\<exists>i j. i < length (flatResults (categories b)) \<and>
               j < length (flatResults (categories b)) \<and> i \<noteq> j \<and>
               flatResults (categories b) ! i = integrations_setting \<and>
               flatResults (categories b) ! j = integrations_page) \<and>
        globalIndex (flatResults (categories b)) integrations_setting
          = globalIndex (flatResults (categories b)) integrations_page \<and>
        nat (globalIndex (flatResults (categories b)) integrations_setting)
          < length (flatResults (categories b)) \<and>
        result_id (flatResults (categories b)
                     ! nat (globalIndex (flatResults (categories b)) integrations_setting))
          = ''integrations'')"
proof -
  have q: "req_query (ask ''integrations'' None None) = Some ''integrations''"
    by (simp add: ask_def)
  have nf: "filters_of (ask ''integrations'' None None) = []"
    by (simp add: ask_def filters_of_def)
  have pick: "\<exists>b. A b \<and> J b \<and> K b \<and> N b \<and> Q b"
    if "\<exists>b. A b \<and> B \<and> C \<and> D \<and> E \<and> F \<and> G \<and> H b \<and> I b \<and> J b \<and> K b \<and> L b \<and> M b
              \<and> N b \<and> Q b \<and> R b"
    for A J K H I L M N Q R :: "search_body \<Rightarrow> bool" and B C D E F G
    using that by blast
  have main: "\<exists>b. fst (handler acme_world empty_table
                    (post ''tok-admin'' (ask ''integrations'' None None)))
                = \<lparr>status = 200, body = SearchBody b\<rparr> \<and>
        (\<exists>i j. i < length (flatResults (categories b)) \<and>
               j < length (flatResults (categories b)) \<and> i \<noteq> j \<and>
               flatResults (categories b) ! i = integrations_setting \<and>
               flatResults (categories b) ! j = integrations_page) \<and>
        globalIndex (flatResults (categories b)) integrations_setting
          = globalIndex (flatResults (categories b)) integrations_page \<and>
        nat (globalIndex (flatResults (categories b)) integrations_setting)
          < length (flatResults (categories b)) \<and>
        result_id (flatResults (categories b)
                     ! nat (globalIndex (flatResults (categories b)) integrations_setting))
          = ''integrations''"
    by (rule pick
          [OF integrations_rows_share_index
                [OF acme_admin_authenticated q nf acme_integrations_leads acme_integrations_users
                    acme_integrations_agents acme_integrations_calls acme_upsert, of empty_table]])
  show ?thesis
    by (intro conjI, rule acme_admin_authenticated, rule q, rule nf, rule acme_upsert, rule main)
qed

section \<open>Recent searches\<close>

subsection \<open>The trigger\<close>

lemma limit_subset: "set (limit_recent_searches NEW rows) \<subseteq> set rows"
  by (auto simp: limit_recent_searches_def Let_def)

lemma limit_others:
  "filter (\<lambda>r. row_user_id r \<noteq> row_user_id NEW) (limit_recent_searches NEW rows)
     = filter (\<lambda>r. row_user_id r \<noteq> row_user_id NEW) rows"
  by (auto simp: limit_recent_searches_def Let_def intro: filter_cong)

lemma filter_ids_in:
  assumes "distinct (map row_id xs)" and "set ys \<subseteq> set xs"
  shows "set (filter (\<lambda>r. row_id r \<in> set (map row_id ys)) xs) = set ys"
proof -
  have inj: "inj_on row_id (set xs)" using assms(1) by (simp add: distinct_map)
  show ?thesis
  proof (intro set_eqI iffI)
    fix r assume "r \<in> set (filter (\<lambda>r. row_id r \<in> set (map row_id ys)) xs)"
    then obtain y where "r \<in> set xs" "y \<in> set ys" "row_id r = row_id y" by auto
    with inj assms(2) show "r \<in> set ys" by (metis inj_onD subsetD)
  next
    fix r assume "r \<in> set ys"
    with assms(2) show "r \<in> set (filter (\<lambda>r. row_id r \<in> set (map row_id ys)) xs)" by auto
  qed
qed

lemma limit_user_rows:
  "filter (\<lambda>r. row_user_id r = row_user_id NEW) (limit_recent_searches NEW rows)
     = filter (\<lambda>r. row_id r \<in> set (map row_id (take 10 (sort_key (\<lambda>r. - created_at r)
                               (filter (\<lambda>r. row_user_id r = row_user_id NEW) rows)))))
         (filter (\<lambda>r. row_user_id r = row_user_id NEW) rows)"
  by (auto simp: limit_recent_searches_def Let_def intro: filter_cong)

lemma limit_at_most_10:
  assumes "distinct (map row_id rows)"
  shows "length (filter (\<lambda>r. row_user_id r = row_user_id NEW) (limit_recent_searches NEW rows)) \<le> 10"
proof -
  let ?U = "filter (\<lambda>r. row_user_id r = row_user_id NEW) rows"
  let ?T = "take 10 (sort_key (\<lambda>r. - created_at r) ?U)"
  let ?K = "filter (\<lambda>r. row_id r \<in> set (map row_id ?T)) ?U"
  have dU: "distinct (map row_id ?U)" using assms by (simp add: distinct_map_filter)
  then have "distinct ?U" by (simp add: distinct_map)
  then have dK: "distinct ?K" by (rule distinct_filter)
  have sub: "set ?T \<subseteq> set ?U" by (metis set_take_subset set_sort)
  have "set ?K = set ?T" by (rule filter_ids_in [OF dU sub])
  have "length ?K = card (set ?K)" using dK by (rule distinct_card [symmetric])
  also have "\<dots> = card (set ?T)" by (simp only: \<open>set ?K = set ?T\<close>)
  also have "\<dots> \<le> length ?T" by (rule card_length)
  also have "\<dots> \<le> 10" by simp
  finally show ?thesis by (simp add: limit_user_rows)
qed

lemma limit_keeps_most_recent:
  assumes "distinct (map row_id rows)"
    and "k \<in> set (limit_recent_searches NEW rows)" and "row_user_id k = row_user_id NEW"
    and "d \<in> set rows" and "row_user_id d = row_user_id NEW"
    and "d \<notin> set (limit_recent_searches NEW rows)"
  shows "created_at d \<le> created_at k"
proof -
  let ?U = "filter (\<lambda>r. row_user_id r = row_user_id NEW) rows"
  let ?S = "sort_key (\<lambda>r. - created_at r) ?U"
  have dU: "distinct (map row_id ?U)" using assms(1) by (simp add: distinct_map_filter)
  have sub: "set (take 10 ?S) \<subseteq> set ?U" by (metis set_take_subset set_sort)
  have kept: "set (filter (\<lambda>r. row_id r \<in> set (map row_id (take 10 ?S))) ?U) = set (take 10 ?S)"
    by (rule filter_ids_in [OF dU sub])
  from assms(2,3) have "k \<in> set (filter (\<lambda>r. row_user_id r = row_user_id NEW) (limit_recent_searches NEW rows))"
    by simp
  then have k: "k \<in> set (take 10 ?S)" unfolding limit_user_rows kept .
  from assms(4,5,6) have "d \<in> set ?U" "d \<notin> set (filter (\<lambda>r. row_user_id r = row_user_id NEW) (limit_recent_searches NEW rows))"
    by auto
  then have "d \<in> set ?S" "d \<notin> set (take 10 ?S)" unfolding limit_user_rows kept by simp_all
  then have d: "d \<in> set (drop 10 ?S)"
    by (metis Un_iff append_take_drop_id set_append)
  have "sorted (map (\<lambda>r. - created_at r) ?S)" by simp
  then have "sorted (map (\<lambda>r. - created_at r) (take 10 ?S) @ map (\<lambda>r. - created_at r) (drop 10 ?S))"
    by (metis append_take_drop_id map_append)
  with k d have "- created_at k \<le> - created_at d"
    by (auto simp: sorted_append)
  then show ?thesis by simp
qed


subsection \<open>The upsert\<close>

lemma upsert_existing:
  assumes "\<exists>r \<in> set (table_rows tb). row_user_id r = uid \<and> row_query r = q"
  shows "upsert_recent uid q t tb =
           tb\<lparr>table_rows :=
                map (\<lambda>r. if row_user_id r = uid \<and> row_query r = q then r\<lparr>created_at := t\<rparr> else r)
                  (table_rows tb)\<rparr>"
  using assms by (simp add: upsert_recent_def)

lemma upsert_new:
  assumes "\<not> (\<exists>r \<in> set (table_rows tb). row_user_id r = uid \<and> row_query r = q)"
  shows "upsert_recent uid q t tb =
           \<lparr>table_rows =
              limit_recent_searches \<lparr>row_id = next_id tb, row_user_id = uid, row_query = q, created_at = t\<rparr>
                (table_rows tb @ [\<lparr>row_id = next_id tb, row_user_id = uid, row_query = q, created_at = t\<rparr>]),
            next_id = Suc (next_id tb)\<rparr>"
proof -
  from assms have no: "(\<exists>r \<in> set (table_rows tb). row_user_id r = uid \<and> row_query r = q) = False"
    by blast
  show ?thesis
    unfolding upsert_recent_def Let_def by (simp only: no if_False)
qed

lemma touch_keeps_ids:
  "map row_id (map (\<lambda>r. if P r then r\<lparr>created_at := t\<rparr> else r) rows) = map row_id rows"
  by (induction rows) auto

lemma touch_keeps_keys:
  "map (\<lambda>r. (row_user_id r, row_query r)) (map (\<lambda>r. if P r then r\<lparr>created_at := t\<rparr> else r) rows)
     = map (\<lambda>r. (row_user_id r, row_query r)) rows"
  by (induction rows) auto

lemma distinct_map_sublist_filter:
  "distinct (map f xs) \<Longrightarrow> distinct (map f (filter P xs))"
  by (rule distinct_map_filter)

lemma limit_is_filter:
  "\<exists>P. limit_recent_searches NEW rows = filter P rows"
  by (auto simp: limit_recent_searches_def Let_def)

lemma table_ok_upsert:
  assumes "table_ok tb"
  shows "table_ok (upsert_recent uid q t tb)"
proof (cases "\<exists>r \<in> set (table_rows tb). row_user_id r = uid \<and> row_query r = q")
  case True
  have ids: "list_all (\<lambda>r. row_id r < next_id tb)
               (map (\<lambda>r. if row_user_id r = uid \<and> row_query r = q then r\<lparr>created_at := t\<rparr> else r)
                  (table_rows tb))"
    using assms by (auto simp: table_ok_def list_all_iff)
  show ?thesis
    unfolding upsert_existing [OF True] using assms ids
    by (simp add: table_ok_def touch_keeps_ids [unfolded map_map]
          touch_keeps_keys [unfolded map_map])
next
  case False
  let ?NEW = "\<lparr>row_id = next_id tb, row_user_id = uid, row_query = q, created_at = t\<rparr>"
  let ?rows1 = "table_rows tb @ [?NEW]"
  obtain P where P: "limit_recent_searches ?NEW ?rows1 = filter P ?rows1"
    using limit_is_filter by blast
  have fresh: "next_id tb \<notin> row_id ` set (table_rows tb)"
    using assms by (auto simp: table_ok_def list_all_iff)
  have d1: "distinct (map row_id ?rows1)"
    using assms fresh by (simp add: table_ok_def)
  have key: "(uid, q) \<notin> (\<lambda>r. (row_user_id r, row_query r)) ` set (table_rows tb)"
    using False by auto
  have d2: "distinct (map (\<lambda>r. (row_user_id r, row_query r)) ?rows1)"
    using assms key by (simp add: table_ok_def)
  have b1: "list_all (\<lambda>r. row_id r < Suc (next_id tb)) ?rows1"
    using assms by (auto simp: table_ok_def list_all_iff less_Suc_eq)
  have f1: "distinct (map row_id (filter P ?rows1))"
    using d1 by (rule distinct_map_filter)
  have f2: "distinct (map (\<lambda>r. (row_user_id r, row_query r)) (filter P ?rows1))"
    using d2 by (rule distinct_map_filter)
  have f3: "list_all (\<lambda>r. row_id r < Suc (next_id tb)) (filter P ?rows1)"
    using b1 by (auto simp: list_all_iff)
  show ?thesis
    unfolding upsert_new [OF False] P table_ok_def
    by (simp only: recent_table.select_convs f1 f2 f3 simp_thms)
qed

lemma upsert_touch:
  assumes "table_ok tb" and "r \<in> set (table_rows tb)"
    and "row_user_id r = uid" and "row_query r = q"
  shows "table_rows (upsert_recent uid q t tb)
           = map (\<lambda>x. if x = r then r\<lparr>created_at := t\<rparr> else x) (table_rows tb)"
proof -
  have ex: "\<exists>r \<in> set (table_rows tb). row_user_id r = uid \<and> row_query r = q"
    using assms(2-4) by blast
  have inj: "inj_on (\<lambda>r. (row_user_id r, row_query r)) (set (table_rows tb))"
    using assms(1) by (simp add: table_ok_def distinct_map)
  have same: "(row_user_id x = uid \<and> row_query x = q) = (x = r)" if "x \<in> set (table_rows tb)" for x
    using inj that assms(2-4) by (auto dest: inj_onD)
  have "map (\<lambda>x. if row_user_id x = uid \<and> row_query x = q then x\<lparr>created_at := t\<rparr> else x) (table_rows tb)
          = map (\<lambda>x. if x = r then r\<lparr>created_at := t\<rparr> else x) (table_rows tb)"
    by (rule map_cong) (auto simp: same)
  then show ?thesis by (simp add: upsert_existing [OF ex])
qed


subsection \<open>A run of searches by one caller\<close>

lemma history_rows_append:
  "history_rows n uid (xs @ ys) = history_rows n uid xs @ history_rows (n + length xs) uid ys"
  by (induction n uid xs rule: history_rows.induct) auto

lemma length_history_rows [simp]: "length (history_rows n uid qts) = length qts"
  by (induction n uid qts rule: history_rows.induct) auto

lemma history_rows_fields:
  "map created_at (history_rows n uid qts) = map snd qts"
  "map row_query (history_rows n uid qts) = map fst qts"
  "map row_id (history_rows n uid qts) = [n..<n + length qts]"
  "\<forall>r \<in> set (history_rows n uid qts). row_user_id r = uid"
  by (induction n uid qts rule: history_rows.induct) (auto simp: upt_rec)

lemma insort_key_last:
  "\<forall>y \<in> set ys. f y < f x \<Longrightarrow> insort_key f x ys = ys @ [x]"
  by (induction ys) auto

lemma sort_descending_of_increasing:
  "sorted_wrt (<) (map created_at xs) \<Longrightarrow> sort_key (\<lambda>r. - created_at r) xs = rev xs"
proof (induction xs)
  case Nil
  show ?case by simp
next
  case (Cons x xs)
  then have ih: "sort_key (\<lambda>r. - created_at r) xs = rev xs" by simp
  from Cons.prems have "\<forall>y \<in> set (rev xs). - created_at y < - created_at x" by auto
  then have "insort_key (\<lambda>r. - created_at r) x (rev xs) = rev xs @ [x]"
    by (rule insort_key_last)
  then show ?case by (simp add: ih)
qed

lemma filter_ids_of_drop:
  assumes "distinct (map row_id xs)"
  shows "filter (\<lambda>r. row_id r \<in> set (map row_id (drop k xs))) xs = drop k xs"
proof -
  have d: "distinct (map row_id (take k xs) @ map row_id (drop k xs))"
    using assms by (metis append_take_drop_id map_append)
  have a: "filter (\<lambda>r. row_id r \<in> set (map row_id (drop k xs))) (take k xs) = []"
    using d by (auto simp: filter_empty_conv)
  have b: "filter (\<lambda>r. row_id r \<in> set (map row_id (drop k xs))) (drop k xs) = drop k xs"
    by (auto simp: filter_id_conv)
  have "filter (\<lambda>r. row_id r \<in> set (map row_id (drop k xs))) (take k xs @ drop k xs) = drop k xs"
    unfolding filter_append a b by simp
  then show ?thesis by simp
qed

lemma take_rev_drop: "take k (rev xs) = rev (drop (length xs - k) xs)"
  by (rule take_rev)

lemma limit_on_increasing:
  assumes "distinct (map row_id U)" and "sorted_wrt (<) (map created_at U)"
  shows "filter (\<lambda>r. row_id r \<in> set (map row_id (take 10 (sort_key (\<lambda>r. - created_at r) U)))) U
           = drop (length U - 10) U"
proof -
  have "set (map row_id (take 10 (sort_key (\<lambda>r. - created_at r) U)))
          = set (map row_id (drop (length U - 10) U))"
    by (simp add: sort_descending_of_increasing [OF assms(2)] take_rev_drop)
  then show ?thesis
    using filter_ids_of_drop [OF assms(1), of "length U - 10"] by simp
qed


lemma run_searches_snoc:
  "run_searches uid (qts @ [(q, t)]) tb = upsert_recent uid q t (run_searches uid qts tb)"
  by (simp add: run_searches_def)

lemma rows_of_user_insert:
  assumes "distinct (map row_id (table_rows tb @ [NEW]))"
    and "sorted_wrt (<) (map created_at (rows_of_user (row_user_id NEW) tb @ [NEW]))"
  shows "filter (\<lambda>r. row_user_id r = row_user_id NEW)
           (limit_recent_searches NEW (table_rows tb @ [NEW]))
         = drop (length (rows_of_user (row_user_id NEW) tb @ [NEW]) - 10)
             (rows_of_user (row_user_id NEW) tb @ [NEW])"
proof -
  let ?U = "rows_of_user (row_user_id NEW) tb @ [NEW]"
  have U: "filter (\<lambda>r. row_user_id r = row_user_id NEW) (table_rows tb @ [NEW]) = ?U"
    by (simp add: rows_of_user_def)
  have dU: "distinct (map row_id ?U)"
    unfolding U [symmetric] using assms(1) by (rule distinct_map_filter)
  show ?thesis
    unfolding limit_user_rows U by (rule limit_on_increasing [OF dU assms(2)])
qed

lemma run_searches_invariant:
  assumes "table_ok tb" and "rows_of_user uid tb = []"
    and "distinct (map fst qts)" and "sorted_wrt (<) (map snd qts)"
  shows "rows_of_user uid (run_searches uid qts tb)
           = drop (length qts - 10) (history_rows (next_id tb) uid qts) \<and>
         next_id (run_searches uid qts tb) = next_id tb + length qts \<and>
         table_ok (run_searches uid qts tb) \<and>
         filter (\<lambda>r. row_user_id r \<noteq> uid) (table_rows (run_searches uid qts tb))
           = filter (\<lambda>r. row_user_id r \<noteq> uid) (table_rows tb)"
  using assms(3,4)
proof (induction qts rule: rev_induct)
  case Nil
  show ?case using assms(1,2) by (simp add: run_searches_def)
next
  case (snoc qt qts)
  obtain q t where qt: "qt = (q, t)" by (cases qt)
  let ?tb = "run_searches uid qts tb"
  let ?n = "length qts"
  let ?H = "history_rows (next_id tb) uid qts"
  let ?NEW = "\<lparr>row_id = next_id ?tb, row_user_id = uid, row_query = q, created_at = t\<rparr>"
  from snoc.prems have dq: "distinct (map fst qts)" and sq: "sorted_wrt (<) (map snd qts)"
    and newq: "q \<notin> fst ` set qts" and newt: "\<forall>x \<in> set qts. snd x < t"
    by (auto simp: qt sorted_wrt_append)
  from snoc.IH [OF dq sq]
  have U: "rows_of_user uid ?tb = drop (?n - 10) ?H"
    and nid: "next_id ?tb = next_id tb + ?n"
    and ok: "table_ok ?tb"
    and others: "filter (\<lambda>r. row_user_id r \<noteq> uid) (table_rows ?tb)
                   = filter (\<lambda>r. row_user_id r \<noteq> uid) (table_rows tb)"
    by simp_all
  have Hq: "row_query ` set ?H = fst ` set qts"
    using history_rows_fields(2) [of "next_id tb" uid qts] by (metis set_map)
  have absent: "\<not> (\<exists>r \<in> set (table_rows ?tb). row_user_id r = uid \<and> row_query r = q)"
  proof
    assume "\<exists>r \<in> set (table_rows ?tb). row_user_id r = uid \<and> row_query r = q"
    then obtain r where "r \<in> set (rows_of_user uid ?tb)" "row_query r = q"
      by (auto simp: rows_of_user_def)
    then have "r \<in> set ?H" unfolding U by (meson in_set_dropD)
    with \<open>row_query r = q\<close> Hq newq show False by blast
  qed
  have step: "run_searches uid (qts @ [qt]) tb =
          \<lparr>table_rows = limit_recent_searches ?NEW (table_rows ?tb @ [?NEW]),
           next_id = Suc (next_id ?tb)\<rparr>"
    unfolding qt run_searches_snoc by (rule upsert_new [OF absent])
  have fresh: "next_id ?tb \<notin> row_id ` set (table_rows ?tb)"
    using ok by (auto simp: table_ok_def list_all_iff)
  have d1: "distinct (map row_id (table_rows ?tb @ [?NEW]))"
    using ok fresh by (simp add: table_ok_def)
  have Hnew: "history_rows (next_id tb) uid (qts @ [qt]) = ?H @ [?NEW]"
    by (simp add: history_rows_append qt nid)
  have inc: "sorted_wrt (<) (map created_at (?H @ [?NEW]))"
    unfolding Hnew [symmetric] history_rows_fields using snoc.prems(2) .
  have U1: "rows_of_user uid ?tb @ [?NEW] = drop (?n - 10) (?H @ [?NEW])"
    unfolding U by simp
  have inc1: "sorted_wrt (<) (map created_at (rows_of_user (row_user_id ?NEW) ?tb @ [?NEW]))"
  proof -
    have "sorted_wrt (<) (drop (?n - 10) (map created_at (?H @ [?NEW])))"
      using inc by (rule sorted_wrt_drop)
    then show ?thesis using U1 by (simp add: drop_map)
  qed
  have "rows_of_user uid (run_searches uid (qts @ [qt]) tb)
          = drop (length (rows_of_user uid ?tb @ [?NEW]) - 10) (rows_of_user uid ?tb @ [?NEW])"
    unfolding step rows_of_user_def
    using rows_of_user_insert [OF d1 inc1] by (simp add: rows_of_user_def)
  also have "\<dots> = drop (length (drop (?n - 10) (?H @ [?NEW])) - 10) (drop (?n - 10) (?H @ [?NEW]))"
    by (simp only: U1)
  also have "\<dots> = drop (Suc ?n - 10) (?H @ [?NEW])"
  proof -
    have len: "length (?H @ [?NEW]) = Suc ?n" by simp
    have ar: "(Suc ?n - (?n - 10)) - 10 + (?n - 10) = Suc ?n - 10" by arith
    show ?thesis by (simp only: drop_drop length_drop len ar)
  qed
  finally have r1: "rows_of_user uid (run_searches uid (qts @ [qt]) tb)
                      = drop (length (qts @ [qt]) - 10) (history_rows (next_id tb) uid (qts @ [qt]))"
    by (simp add: Hnew)
  have r2: "next_id (run_searches uid (qts @ [qt]) tb) = next_id tb + length (qts @ [qt])"
    by (simp add: step nid)
  have r3: "table_ok (run_searches uid (qts @ [qt]) tb)"
    unfolding qt run_searches_snoc by (rule table_ok_upsert [OF ok])
  have "filter (\<lambda>r. row_user_id r \<noteq> uid) (table_rows (run_searches uid (qts @ [qt]) tb))
          = filter (\<lambda>r. row_user_id r \<noteq> uid) (table_rows ?tb @ [?NEW])"
    unfolding step using limit_others [of ?NEW "table_rows ?tb @ [?NEW]"] by simp
  then have r4: "filter (\<lambda>r. row_user_id r \<noteq> uid) (table_rows (run_searches uid (qts @ [qt]) tb))
          = filter (\<lambda>r. row_user_id r \<noteq> uid) (table_rows tb)"
    using others by simp
  from r1 r2 r3 r4 show ?case by simp
qed


lemma rows_of_user_other:
  assumes "u \<noteq> uid"
  shows "rows_of_user u (upsert_recent uid q t tb) = rows_of_user u tb"
proof (cases "\<exists>r \<in> set (table_rows tb). row_user_id r = uid \<and> row_query r = q")
  case True
  have "filter (\<lambda>r. row_user_id r = u)
          (map (\<lambda>r. if row_user_id r = uid \<and> row_query r = q then r\<lparr>created_at := t\<rparr> else r) rows)
        = filter (\<lambda>r. row_user_id r = u) rows" for rows
    using assms by (induction rows) auto
  then show ?thesis by (simp add: upsert_existing [OF True] rows_of_user_def)
next
  case False
  let ?NEW = "\<lparr>row_id = next_id tb, row_user_id = uid, row_query = q, created_at = t\<rparr>"
  have split: "filter (\<lambda>r. row_user_id r = u) xs
          = filter (\<lambda>r. row_user_id r = u) (filter (\<lambda>r. row_user_id r \<noteq> uid) xs)" for xs
    using assms by (induction xs) auto
  have lo: "filter (\<lambda>r. row_user_id r \<noteq> uid) (limit_recent_searches ?NEW (table_rows tb @ [?NEW]))
          = filter (\<lambda>r. row_user_id r \<noteq> uid) (table_rows tb @ [?NEW])"
    using limit_others [of ?NEW "table_rows tb @ [?NEW]"] by simp
  have "filter (\<lambda>r. row_user_id r = u) (limit_recent_searches ?NEW (table_rows tb @ [?NEW]))
          = filter (\<lambda>r. row_user_id r = u)
              (filter (\<lambda>r. row_user_id r \<noteq> uid) (limit_recent_searches ?NEW (table_rows tb @ [?NEW])))"
    by (rule split)
  also have "\<dots> = filter (\<lambda>r. row_user_id r = u)
              (filter (\<lambda>r. row_user_id r \<noteq> uid) (table_rows tb @ [?NEW]))"
    by (simp only: lo)
  also have "\<dots> = filter (\<lambda>r. row_user_id r = u) (table_rows tb @ [?NEW])"
    by (rule split [symmetric])
  finally have "filter (\<lambda>r. row_user_id r = u) (limit_recent_searches ?NEW (table_rows tb @ [?NEW]))
          = filter (\<lambda>r. row_user_id r = u) (table_rows tb @ [?NEW])" .
  then show ?thesis using assms by (simp add: upsert_new [OF False] rows_of_user_def)
qed

lemma rows_of_user_touch_length:
  assumes "\<exists>r \<in> set (table_rows tb). row_user_id r = uid \<and> row_query r = q"
  shows "length (rows_of_user u (upsert_recent uid q t tb)) = length (rows_of_user u tb)"
proof -
  have "length (filter (\<lambda>r. row_user_id r = u)
          (map (\<lambda>r. if row_user_id r = uid \<and> row_query r = q then r\<lparr>created_at := t\<rparr> else r) rows))
        = length (filter (\<lambda>r. row_user_id r = u) rows)" for rows
    by (induction rows) auto
  then show ?thesis by (simp add: upsert_existing [OF assms] rows_of_user_def)
qed

lemma rows_of_user_insert_bound:
  assumes "table_ok tb"
    and "\<not> (\<exists>r \<in> set (table_rows tb). row_user_id r = uid \<and> row_query r = q)"
  shows "length (rows_of_user uid (upsert_recent uid q t tb)) \<le> 10"
proof -
  let ?NEW = "\<lparr>row_id = next_id tb, row_user_id = uid, row_query = q, created_at = t\<rparr>"
  have fresh: "next_id tb \<notin> row_id ` set (table_rows tb)"
    using assms(1) by (auto simp: table_ok_def list_all_iff)
  have d1: "distinct (map row_id (table_rows tb @ [?NEW]))"
    using assms(1) fresh by (simp add: table_ok_def)
  from limit_at_most_10 [OF d1, of ?NEW] show ?thesis
    by (simp add: upsert_new [OF assms(2)] rows_of_user_def)
qed

lemma upsert_bound_all:
  assumes "table_ok tb" and "\<forall>u. length (rows_of_user u tb) \<le> 10"
  shows "length (rows_of_user u (upsert_recent uid q t tb)) \<le> 10"
proof (cases "u = uid")
  case False
  then show ?thesis using assms(2) by (simp add: rows_of_user_other)
next
  case True
  show ?thesis
  proof (cases "\<exists>r \<in> set (table_rows tb). row_user_id r = uid \<and> row_query r = q")
    case True
    then show ?thesis using assms(2) by (simp add: rows_of_user_touch_length)
  next
    case False
    then show ?thesis using \<open>u = uid\<close> rows_of_user_insert_bound [OF assms(1)] by simp
  qed
qed

lemma insert_keeps_most_recent:
  assumes "table_ok tb"
    and "\<not> (\<exists>r \<in> set (table_rows tb). row_user_id r = uid \<and> row_query r = q)"
    and "k \<in> set (rows_of_user uid (upsert_recent uid q t tb))"
    and "d \<in> set (table_rows tb @ [\<lparr>row_id = next_id tb, row_user_id = uid, row_query = q, created_at = t\<rparr>])"
    and "row_user_id d = uid"
    and "d \<notin> set (table_rows (upsert_recent uid q t tb))"
  shows "created_at d \<le> created_at k"
proof -
  let ?NEW = "\<lparr>row_id = next_id tb, row_user_id = uid, row_query = q, created_at = t\<rparr>"
  have fresh: "next_id tb \<notin> row_id ` set (table_rows tb)"
    using assms(1) by (auto simp: table_ok_def list_all_iff)
  have d1: "distinct (map row_id (table_rows tb @ [?NEW]))"
    using assms(1) fresh by (simp add: table_ok_def)
  have rows: "table_rows (upsert_recent uid q t tb) = limit_recent_searches ?NEW (table_rows tb @ [?NEW])"
    by (simp add: upsert_new [OF assms(2)])
  from assms(3) have k: "k \<in> set (limit_recent_searches ?NEW (table_rows tb @ [?NEW]))"
    "row_user_id k = row_user_id ?NEW"
    by (simp_all add: rows rows_of_user_def)
  have dn: "d \<notin> set (limit_recent_searches ?NEW (table_rows tb @ [?NEW]))"
    using assms(6) unfolding rows .
  have du: "row_user_id d = row_user_id ?NEW" using assms(5) by simp
  show ?thesis
    by (rule limit_keeps_most_recent [OF d1 k assms(4) du dn])
qed

lemma eleven_searches_drop_oldest:
  assumes "table_ok tb" and "rows_of_user uid tb = []"
    and "distinct (map fst qts)" and "sorted_wrt (<) (map snd qts)" and "length qts = 11"
  shows "map (\<lambda>r. (row_query r, created_at r)) (rows_of_user uid (run_searches uid qts tb)) = tl qts"
    and "length (rows_of_user uid (run_searches uid qts tb)) = 10"
    and "fst (hd qts) \<notin> row_query ` set (rows_of_user uid (run_searches uid qts tb))"
    and "list_all (\<lambda>x. snd (hd qts) < snd x) (tl qts)"
proof -
  from run_searches_invariant [OF assms(1-4)] assms(5)
  have U: "rows_of_user uid (run_searches uid qts tb) = drop 1 (history_rows (next_id tb) uid qts)"
    by simp
  have pairs: "map (\<lambda>r. (row_query r, created_at r)) (history_rows n uid xs) = xs" for n xs
    by (induction n uid xs rule: history_rows.induct) auto
  show m: "map (\<lambda>r. (row_query r, created_at r)) (rows_of_user uid (run_searches uid qts tb)) = tl qts"
    unfolding U by (simp add: drop_Suc map_tl pairs)
  show "length (rows_of_user uid (run_searches uid qts tb)) = 10"
    unfolding U using assms(5) by simp
  from assms(5) obtain x xs where qts: "qts = x # xs" by (cases qts) auto
  have "row_query ` set (rows_of_user uid (run_searches uid qts tb)) = fst ` set (tl qts)"
  proof -
    have "map row_query (rows_of_user uid (run_searches uid qts tb)) = map fst (tl qts)"
      using arg_cong [OF m, of "map fst"] by (simp add: comp_def)
    then show ?thesis by (metis set_map)
  qed
  then show "fst (hd qts) \<notin> row_query ` set (rows_of_user uid (run_searches uid qts tb))"
    using assms(3) by (auto simp: qts)
  show "list_all (\<lambda>x. snd (hd qts) < snd x) (tl qts)"
    using assms(4) by (auto simp: qts list_all_iff)
qed

lemma limit_count:
  assumes "distinct (map row_id rows)"
  shows "length (filter (\<lambda>r. row_user_id r = row_user_id NEW) (limit_recent_searches NEW rows))
           = min (length (filter (\<lambda>r. row_user_id r = row_user_id NEW) rows)) 10"
proof -
  let ?U = "filter (\<lambda>r. row_user_id r = row_user_id NEW) rows"
  let ?T = "take 10 (sort_key (\<lambda>r. - created_at r) ?U)"
  let ?K = "filter (\<lambda>r. row_id r \<in> set (map row_id ?T)) ?U"
  have dU: "distinct (map row_id ?U)" using assms by (simp add: distinct_map_filter)
  then have "distinct ?U" by (simp add: distinct_map)
  then have dK: "distinct ?K" by (rule distinct_filter)
  have dT: "distinct ?T" using \<open>distinct ?U\<close> by simp
  have sub: "set ?T \<subseteq> set ?U" by (metis set_take_subset set_sort)
  have KT: "set ?K = set ?T" by (rule filter_ids_in [OF dU sub])
  have "length ?K = card (set ?K)" using dK by (rule distinct_card [symmetric])
  also have "\<dots> = card (set ?T)" by (simp only: KT)
  also have "\<dots> = length ?T" using dT by (rule distinct_card)
  also have "\<dots> = min (length ?U) 10" by simp
  finally show ?thesis by (simp add: limit_user_rows)
qed

lemma rows_of_user_insert_count:
  assumes "table_ok tb"
    and "\<not> (\<exists>r \<in> set (table_rows tb). row_user_id r = uid \<and> row_query r = q)"
  shows "length (rows_of_user uid (upsert_recent uid q t tb))
           = min (Suc (length (rows_of_user uid tb))) 10"
proof -
  let ?NEW = "\<lparr>row_id = next_id tb, row_user_id = uid, row_query = q, created_at = t\<rparr>"
  have fresh: "next_id tb \<notin> row_id ` set (table_rows tb)"
    using assms(1) by (auto simp: table_ok_def list_all_iff)
  have d1: "distinct (map row_id (table_rows tb @ [?NEW]))"
    using assms(1) fresh by (simp add: table_ok_def)
  from limit_count [OF d1, of ?NEW] show ?thesis
    by (simp add: upsert_new [OF assms(2)] rows_of_user_def)
qed

lemma rows_of_user_insert_queries:
  assumes "\<not> (\<exists>r \<in> set (table_rows tb). row_user_id r = uid \<and> row_query r = q)"
  shows "row_query ` set (rows_of_user uid (upsert_recent uid q t tb))
           \<subseteq> insert q (row_query ` set (rows_of_user uid tb))"
proof -
  let ?NEW = "\<lparr>row_id = next_id tb, row_user_id = uid, row_query = q, created_at = t\<rparr>"
  have "set (limit_recent_searches ?NEW (table_rows tb @ [?NEW])) \<subseteq> set (table_rows tb @ [?NEW])"
    by (rule limit_subset)
  then have sub: "set (limit_recent_searches ?NEW (table_rows tb @ [?NEW]))
                    \<subseteq> insert ?NEW (set (table_rows tb))"
    by simp
  show ?thesis
  proof
    fix x assume "x \<in> row_query ` set (rows_of_user uid (upsert_recent uid q t tb))"
    then obtain r where r: "r \<in> set (limit_recent_searches ?NEW (table_rows tb @ [?NEW]))"
      "row_user_id r = uid" "x = row_query r"
      by (auto simp: upsert_new [OF assms] rows_of_user_def)
    from r(1) sub have "r = ?NEW \<or> r \<in> set (table_rows tb)" by blast
    then show "x \<in> insert q (row_query ` set (rows_of_user uid tb))"
    proof
      assume "r = ?NEW"
      then show ?thesis using r(3) by simp
    next
      assume "r \<in> set (table_rows tb)"
      then have "r \<in> set (rows_of_user uid tb)" using r(2) by (simp add: rows_of_user_def)
      then show ?thesis using r(3) by blast
    qed
  qed
qed

lemma run_searches_count:
  assumes "table_ok tb" and "rows_of_user uid tb = []" and "distinct (map fst qts)"
  shows "length (rows_of_user uid (run_searches uid qts tb)) = min (length qts) 10 \<and>
         row_query ` set (rows_of_user uid (run_searches uid qts tb)) \<subseteq> fst ` set qts \<and>
         table_ok (run_searches uid qts tb)"
  using assms(3)
proof (induction qts rule: rev_induct)
  case Nil
  show ?case using assms(1,2) by (simp add: run_searches_def)
next
  case (snoc qt qts)
  obtain q t where qt: "qt = (q, t)" by (cases qt)
  let ?tb = "run_searches uid qts tb"
  from snoc.prems have dq: "distinct (map fst qts)" and newq: "q \<notin> fst ` set qts"
    by (auto simp: qt)
  from snoc.IH [OF dq]
  have len: "length (rows_of_user uid ?tb) = min (length qts) 10"
    and qs: "row_query ` set (rows_of_user uid ?tb) \<subseteq> fst ` set qts"
    and ok: "table_ok ?tb"
    by simp_all
  have absent: "\<not> (\<exists>r \<in> set (table_rows ?tb). row_user_id r = uid \<and> row_query r = q)"
  proof
    assume "\<exists>r \<in> set (table_rows ?tb). row_user_id r = uid \<and> row_query r = q"
    then have "q \<in> row_query ` set (rows_of_user uid ?tb)"
      by (auto simp: rows_of_user_def)
    with qs newq show False by blast
  qed
  have r1: "length (rows_of_user uid (run_searches uid (qts @ [qt]) tb)) = min (length (qts @ [qt])) 10"
    unfolding qt run_searches_snoc rows_of_user_insert_count [OF ok absent] len by simp
  have r2: "row_query ` set (rows_of_user uid (run_searches uid (qts @ [qt]) tb)) \<subseteq> fst ` set (qts @ [qt])"
    unfolding qt run_searches_snoc using rows_of_user_insert_queries [OF absent, of t] qs by auto
  have r3: "table_ok (run_searches uid (qts @ [qt]) tb)"
    unfolding qt run_searches_snoc by (rule table_ok_upsert [OF ok])
  from r1 r2 r3 show ?case by simp
qed

text \<open>
  C5. A table that satisfies the constraints of the schema holds at most one row per caller
  and query text, and an upsert keeps it so. Repeating a query that has a row changes the
  timestamp of that row and nothing else: no row is added. An upsert that inserts a row
  runs the trigger: afterwards the caller has at most 10 rows, no row of another caller has
  changed, and every row of the caller that was deleted is at most as recent as every row
  that was kept; a table with at most 10 rows per caller keeps that bound under every
  upsert. When a caller with no rows runs 11 distinct queries with increasing timestamps,
  exactly 10 rows of the caller remain: those of the last ten queries, without the first
  one, whose timestamp is the least. Whatever the timestamps are, a caller with no rows has
  \<open>min n 10\<close> rows after \<open>n\<close> distinct queries. A search that the handler answers
  and whose history write succeeds changes the table by exactly this upsert, keyed by the
  caller and the trimmed query.
\<close>

theorem recent_searches_unique_and_pruned:
  assumes "table_ok tb"
  shows "table_ok (upsert_recent uid q t tb) \<and>
         ((\<forall>u. length (rows_of_user u tb) \<le> 10) \<longrightarrow>
            (\<forall>u. length (rows_of_user u (upsert_recent uid q t tb)) \<le> 10)) \<and>
         (\<forall>r \<in> set (table_rows tb). row_user_id r = uid \<and> row_query r = q \<longrightarrow>
            table_rows (upsert_recent uid q t tb)
              = map (\<lambda>x. if x = r then r\<lparr>created_at := t\<rparr> else x) (table_rows tb)) \<and>
         (\<not> (\<exists>r \<in> set (table_rows tb). row_user_id r = uid \<and> row_query r = q) \<longrightarrow>
            length (rows_of_user uid (upsert_recent uid q t tb)) \<le> 10 \<and>
            (\<forall>u. u \<noteq> uid \<longrightarrow> rows_of_user u (upsert_recent uid q t tb) = rows_of_user u tb) \<and>
            (\<forall>k \<in> set (rows_of_user uid (upsert_recent uid q t tb)).
               \<forall>d \<in> set (table_rows tb @
                            [\<lparr>row_id = next_id tb, row_user_id = uid, row_query = q, created_at = t\<rparr>]).
                 row_user_id d = uid \<and> d \<notin> set (table_rows (upsert_recent uid q t tb)) \<longrightarrow>
                 created_at d \<le> created_at k)) \<and>
         (\<forall>qts. rows_of_user uid tb = [] \<and> distinct (map fst qts) \<and>
                sorted_wrt (<) (map snd qts) \<and> length qts = 11 \<longrightarrow>
            length (rows_of_user uid (run_searches uid qts tb)) = 10 \<and>
            map (\<lambda>r. (row_query r, created_at r)) (rows_of_user uid (run_searches uid qts tb)) = tl qts \<and>
            fst (hd qts) \<notin> row_query ` set (rows_of_user uid (run_searches uid qts tb)) \<and>
            list_all (\<lambda>x. snd (hd qts) < snd x) (tl qts)) \<and>
         (\<forall>qts. rows_of_user uid tb = [] \<and> distinct (map fst qts) \<longrightarrow>
            length (rows_of_user uid (run_searches uid qts tb)) = min (length qts) 10) \<and>
         (\<forall>w req p rq s l u a c.
            authenticated w req uid p rq \<and> req_query rq = Some s \<and> 2 \<le> length s \<and>
            leadsP w p rq s = Resolved l \<and> usersP w p rq s = Resolved u \<and>
            agentsP w p rq s = Resolved a \<and> callsP w p rq s = Resolved c \<and>
            recent_upsert w uid (trim s) = Resolved None \<longrightarrow>
            snd (snd (handler w tb req)) = upsert_recent uid (trim s) (now w) tb)"
proof (intro conjI)
  show "table_ok (upsert_recent uid q t tb)"
    by (rule table_ok_upsert [OF assms])
  show "(\<forall>u. length (rows_of_user u tb) \<le> 10) \<longrightarrow>
            (\<forall>u. length (rows_of_user u (upsert_recent uid q t tb)) \<le> 10)"
    using upsert_bound_all [OF assms] by blast
  show "\<forall>r \<in> set (table_rows tb). row_user_id r = uid \<and> row_query r = q \<longrightarrow>
            table_rows (upsert_recent uid q t tb)
              = map (\<lambda>x. if x = r then r\<lparr>created_at := t\<rparr> else x) (table_rows tb)"
    using upsert_touch [OF assms] by blast
  show "\<not> (\<exists>r \<in> set (table_rows tb). row_user_id r = uid \<and> row_query r = q) \<longrightarrow>
            length (rows_of_user uid (upsert_recent uid q t tb)) \<le> 10 \<and>
            (\<forall>u. u \<noteq> uid \<longrightarrow> rows_of_user u (upsert_recent uid q t tb) = rows_of_user u tb) \<and>
            (\<forall>k \<in> set (rows_of_user uid (upsert_recent uid q t tb)).
               \<forall>d \<in> set (table_rows tb @
                            [\<lparr>row_id = next_id tb, row_user_id = uid, row_query = q, created_at = t\<rparr>]).
                 row_user_id d = uid \<and> d \<notin> set (table_rows (upsert_recent uid q t tb)) \<longrightarrow>
                 created_at d \<le> created_at k)"
  proof (intro impI conjI allI ballI)
    assume no: "\<not> (\<exists>r \<in> set (table_rows tb). row_user_id r = uid \<and> row_query r = q)"
    show "length (rows_of_user uid (upsert_recent uid q t tb)) \<le> 10"
      by (rule rows_of_user_insert_bound [OF assms no])
    show "rows_of_user u (upsert_recent uid q t tb) = rows_of_user u tb" if "u \<noteq> uid" for u
      by (rule rows_of_user_other [OF that])
    show "created_at d \<le> created_at k"
      if "k \<in> set (rows_of_user uid (upsert_recent uid q t tb))"
        and "d \<in> set (table_rows tb @
                            [\<lparr>row_id = next_id tb, row_user_id = uid, row_query = q, created_at = t\<rparr>])"
        and "row_user_id d = uid \<and> d \<notin> set (table_rows (upsert_recent uid q t tb))" for k d
      using insert_keeps_most_recent [OF assms no that(1,2)] that(3) by blast
  qed
  show "\<forall>qts. rows_of_user uid tb = [] \<and> distinct (map fst qts) \<and>
                sorted_wrt (<) (map snd qts) \<and> length qts = 11 \<longrightarrow>
            length (rows_of_user uid (run_searches uid qts tb)) = 10 \<and>
            map (\<lambda>r. (row_query r, created_at r)) (rows_of_user uid (run_searches uid qts tb)) = tl qts \<and>
            fst (hd qts) \<notin> row_query ` set (rows_of_user uid (run_searches uid qts tb)) \<and>
            list_all (\<lambda>x. snd (hd qts) < snd x) (tl qts)"
    using eleven_searches_drop_oldest [OF assms] by blast
  show "\<forall>qts. rows_of_user uid tb = [] \<and> distinct (map fst qts) \<longrightarrow>
            length (rows_of_user uid (run_searches uid qts tb)) = min (length qts) 10"
    using run_searches_count [OF assms] by blast
  show "\<forall>w req p rq s l u a c.
            authenticated w req uid p rq \<and> req_query rq = Some s \<and> 2 \<le> length s \<and>
            leadsP w p rq s = Resolved l \<and> usersP w p rq s = Resolved u \<and>
            agentsP w p rq s = Resolved a \<and> callsP w p rq s = Resolved c \<and>
            recent_upsert w uid (trim s) = Resolved None \<longrightarrow>
            snd (snd (handler w tb req)) = upsert_recent uid (trim s) (now w) tb"
  proof (intro allI impI)
    fix w req p rq s l u a c
    assume h: "authenticated w req uid p rq \<and> req_query rq = Some s \<and> 2 \<le> length s \<and>
            leadsP w p rq s = Resolved l \<and> usersP w p rq s = Resolved u \<and>
            agentsP w p rq s = Resolved a \<and> callsP w p rq s = Resolved c \<and>
            recent_upsert w uid (trim s) = Resolved None"
    then have "handler w tb req =
           (\<lparr>status = 200,
             body = SearchBody
                \<lparr>results = slice0 (sortResults (l @ u @ a @ c @ searchSettings (filters_of rq) s
                                       @ searchNavigation s)) (limit_of rq),
                 categories = buildCategories (sortResults (l @ u @ a @ c
                                       @ searchSettings (filters_of rq) s @ searchNavigation s)),
                 totalCount = Some (length (l @ u @ a @ c @ searchSettings (filters_of rq) s
                                       @ searchNavigation s)),
                 resp_query = Some s,
                 resp_intents = Some (detectQueryIntent s)\<rparr>\<rparr>,
            adapter_ops w p rq s @ [Upsert uid (trim s) (now w)],
            if (None :: string option) = None then upsert_recent uid (trim s) (now w) tb else tb)"
      using handler_success [of w req uid p rq s l u a c None tb] by blast
    then show "snd (snd (handler w tb req)) = upsert_recent uid (trim s) (now w) tb"
      by simp
  qed
qed

theorem recent_searches_unique_and_pruned_witness:
  "table_ok empty_table \<and>
   rows_of_user ''u-admin'' empty_table = [] \<and>
   distinct (map fst eleven_searches) \<and>
   sorted_wrt (<) (map snd eleven_searches) \<and>
   length eleven_searches = 11 \<and>
   length (rows_of_user ''u-admin'' (run_searches ''u-admin'' eleven_searches empty_table)) = 10 \<and>
   map (\<lambda>r. (row_query r, created_at r))
     (rows_of_user ''u-admin'' (run_searches ''u-admin'' eleven_searches empty_table))
     = tl eleven_searches \<and>
   table_ok (run_searches ''u-admin'' [(''alpha'', 1)] empty_table) \<and>
   \<lparr>row_id = 0, row_user_id = ''u-admin'', row_query = ''alpha'', created_at = 1\<rparr>
     \<in> set (table_rows (run_searches ''u-admin'' [(''alpha'', 1)] empty_table)) \<and>
   table_rows (upsert_recent ''u-admin'' ''alpha'' 5 (run_searches ''u-admin'' [(''alpha'', 1)] empty_table))
     = [\<lparr>row_id = 0, row_user_id = ''u-admin'', row_query = ''alpha'', created_at = 5\<rparr>]"
proof -
  have ok: "table_ok empty_table" by (simp add: table_ok_def empty_table_def)
  have none: "rows_of_user ''u-admin'' empty_table = []"
    by (simp add: rows_of_user_def empty_table_def)
  have d: "distinct (map fst eleven_searches)" by code_simp
  have s: "sorted_wrt (<) (map snd eleven_searches)" by code_simp
  have n: "length eleven_searches = 11" by code_simp
  have hyp: "rows_of_user ''u-admin'' empty_table = [] \<and> distinct (map fst eleven_searches) \<and>
             sorted_wrt (<) (map snd eleven_searches) \<and> length eleven_searches = 11"
    by (intro conjI none d s n)
  note run = recent_searches_unique_and_pruned
               [OF ok, of "''u-admin''" "''kilo''" 11, THEN conjunct2, THEN conjunct2,
                THEN conjunct2, THEN conjunct2, THEN conjunct1, rule_format, OF hyp]
  note len = run [THEN conjunct1]
  note rows = run [THEN conjunct2, THEN conjunct1]
  have one: "run_searches ''u-admin'' [(''alpha'', 1)] empty_table
               = \<lparr>table_rows = [\<lparr>row_id = 0, row_user_id = ''u-admin'', row_query = ''alpha'',
                                  created_at = 1\<rparr>], next_id = 1\<rparr>"
    by code_simp
  have ok1: "table_ok (run_searches ''u-admin'' [(''alpha'', 1)] empty_table)"
    unfolding one by (simp add: table_ok_def)
  have mem: "\<lparr>row_id = 0, row_user_id = ''u-admin'', row_query = ''alpha'', created_at = 1\<rparr>
     \<in> set (table_rows (run_searches ''u-admin'' [(''alpha'', 1)] empty_table))"
    unfolding one by simp
  have key: "row_user_id \<lparr>row_id = 0, row_user_id = ''u-admin'', row_query = ''alpha'', created_at = 1\<rparr>
               = ''u-admin'' \<and>
             row_query \<lparr>row_id = 0, row_user_id = ''u-admin'', row_query = ''alpha'', created_at = 1\<rparr>
               = ''alpha''"
    by simp
  note again = recent_searches_unique_and_pruned
                 [OF ok1, of "''u-admin''" "''alpha''" 5, THEN conjunct2, THEN conjunct2,
                  THEN conjunct1, rule_format, OF mem key]
  have touch: "table_rows (upsert_recent ''u-admin'' ''alpha'' 5 (run_searches ''u-admin'' [(''alpha'', 1)] empty_table))
     = [\<lparr>row_id = 0, row_user_id = ''u-admin'', row_query = ''alpha'', created_at = 5\<rparr>]"
    unfolding again by (simp add: one)
  show ?thesis
    by (intro conjI, rule ok, rule none, rule d, rule s, rule n, rule len, rule rows, rule ok1,
        rule mem, rule touch)
qed

section \<open>Superseded searches in the client\<close>

lemmas controller_defs =
  run_def default_options_def initial_hook_def search_def abort_def sessionSettles_def
  fetchSettles_def jsonSettles_def finish_def caught_def Let_def

lemma overtaken_final:
  "run default_options overtaken =
     \<lparr>h_query = [], h_results = results leads_body, h_categories = categories leads_body,
      isLoading = False, h_error = None, recentFetches = 3, debounceTimer = None,
      abortControllerRef = Some 1, controllers = 2, aborted = [0],
      calls = [Finished, Finished],
      requests = [(0, ''leads'', [], 10, 1), (1, ''agents'', [], 10, 1)]\<rparr>"
  by (simp add: controller_defs overtaken_def)

lemma overtaken_after_newer_response:
  "run default_options (take 6 overtaken) =
     \<lparr>h_query = [], h_results = results agents_body, h_categories = categories agents_body,
      isLoading = False, h_error = None, recentFetches = 2, debounceTimer = None,
      abortControllerRef = Some 1, controllers = 2, aborted = [0],
      calls = [AwaitFetch 1 ''leads'' [], Finished],
      requests = [(0, ''leads'', [], 10, 1), (1, ''agents'', [], 10, 1)]\<rparr>"
  by (simp add: controller_defs overtaken_def)

lemma overtaken_after_both_issued:
  "run default_options (take 2 overtaken) =
     \<lparr>h_query = [], h_results = [], h_categories = [],
      isLoading = True, h_error = None, recentFetches = 1, debounceTimer = None,
      abortControllerRef = Some 1, controllers = 2, aborted = [0],
      calls = [AwaitSession ''leads'' [], AwaitSession ''agents'' []],
      requests = []\<rparr>"
  by (simp add: controller_defs overtaken_def)

lemma bodies: "map result_id (results leads_body) = [''leads'']"
  "map result_id (results agents_body) = [''agents'']"
  by code_simp+

lemma settle_finished:
  assumes "k < length (calls h)" and "calls h ! k = Finished"
  shows "step opts h (SessionSettles k r1) = h"
    and "step opts h (FetchSettles k r2) = h"
    and "step opts h (JsonSettles k r3) = h"
  using assms by (simp_all add: sessionSettles_def fetchSettles_def jsonSettles_def)

lemma search_cancels_request_on_the_wire:
  assumes "k < length (calls h)" and "calls h ! k = AwaitFetch c q fs \<or> calls h ! k = AwaitJson c"
    and "abortControllerRef h = Some c" and "minQueryLength opts \<le> length q'"
  shows "calls (search opts q' fs' h) ! k = Finished"
    and "h_results (search opts q' fs' h) = h_results h"
    and "h_categories (search opts q' fs' h) = h_categories h"
    and "h_error (search opts q' fs' h) = None"
    and "c \<in> set (aborted (search opts q' fs' h))"
    and "requests (search opts q' fs' h) = requests h"
  using assms by (auto simp: search_def Let_def abort_def nth_append)

lemma superseded_shows_latest:
  "h_results (run default_options superseded) = results agents_body \<and>
   h_categories (run default_options superseded) = categories agents_body \<and>
   h_error (run default_options superseded) = None"
  by code_simp

text \<open>
  C3. A search that starts aborts the controller of the previous search before it sends
  anything, and a previous request that is already on the wire is cancelled by that: its
  invocation ends and its response, whenever it arrives, changes nothing
  (\<open>search_cancels_request_on_the_wire\<close>, \<open>settle_finished\<close>,
  \<open>superseded_shows_latest\<close>). The theorem below runs the other order: the search for
  \<open>agents\<close> starts while the search for \<open>leads\<close> still waits for its session. The
  controller of the first search is aborted while no request exists; the first search then
  reads the signal from the shared ref and sends its request with the signal of the second
  controller, as the second search does. The response for \<open>agents\<close> arrives and is
  displayed; the response for \<open>leads\<close> arrives later and replaces it. The displayed
  results and categories are those of \<open>leads\<close>, which is not the most recently issued
  request.
\<close>

theorem stale_response_overwrites_newer:
  "h_results (run default_options (take 6 overtaken)) = results agents_body \<and>
   h_results (run default_options overtaken) = results leads_body \<and>
   h_categories (run default_options overtaken) = categories leads_body \<and>
   map result_id (results leads_body) = [''leads''] \<and>
   map result_id (results agents_body) = [''agents''] \<and>
   aborted (run default_options (take 2 overtaken)) = [0] \<and>
   requests (run default_options (take 2 overtaken)) = [] \<and>
   requests (run default_options overtaken)
     = [(0, ''leads'', [], 10, 1), (1, ''agents'', [], 10, 1)]"
  by (simp add: overtaken_final overtaken_after_newer_response overtaken_after_both_issued bodies)

end
